theory Spec2Isabelle
  imports Main "HOL-Library.Word" "HOL-Library.Sublist"
begin

unbundle bit_operations_syntax

section \<open>Strings and numbers of the host language\<close>

text \<open>
  The scraper endpoint (\<^verbatim>\<open>src/pages/api/scrape.ts\<close>) works on JavaScript strings.
  A string is a \<^typ>\<open>string\<close>; \<^verbatim>\<open>s.startsWith(p)\<close> is \<^term>\<open>prefix p s\<close>.
\<close>

definition is_digit :: "char \<Rightarrow> bool" where
  "is_digit c = (48 \<le> (of_char c :: nat) \<and> (of_char c :: nat) \<le> 57)"

definition is_lower_hex :: "char \<Rightarrow> bool" where
  "is_lower_hex c = (97 \<le> (of_char c :: nat) \<and> (of_char c :: nat) \<le> 102)"

definition is_upper_hex :: "char \<Rightarrow> bool" where
  "is_upper_hex c = (65 \<le> (of_char c :: nat) \<and> (of_char c :: nat) \<le> 70)"

definition is_hex :: "char \<Rightarrow> bool" where
  "is_hex c = (is_digit c \<or> is_lower_hex c \<or> is_upper_hex c)"

definition is_upper :: "char \<Rightarrow> bool" where
  "is_upper c = (65 \<le> (of_char c :: nat) \<and> (of_char c :: nat) \<le> 90)"

definition is_lower :: "char \<Rightarrow> bool" where
  "is_lower c = (97 \<le> (of_char c :: nat) \<and> (of_char c :: nat) \<le> 122)"

definition digit_val :: "char \<Rightarrow> nat" where
  "digit_val c = of_char c - 48"

definition digit_char :: "nat \<Rightarrow> char" where
  "digit_char d = char_of (48 + d)"

text \<open>The value of a string of decimal digits, most significant digit first.\<close>

definition dec_val :: "string \<Rightarrow> nat" where
  "dec_val s = foldl (\<lambda>n c. 10 * n + digit_val c) 0 s"

text \<open>
  A JavaScript number as the classifier meets it: a natural number, or \<open>None\<close> for
  \<^verbatim>\<open>NaN\<close> and for the \<^verbatim>\<open>undefined\<close> of a missing array element (every comparison with
  either is false).  \<^verbatim>\<open>Number(p)\<close> is only ever applied to the dot-separated parts of a
  string that \<^verbatim>\<open>net.isIP\<close> accepted as IPv4, which are digit strings; on other
  strings the model answers \<^verbatim>\<open>NaN\<close>.
\<close>

type_synonym jsnum = "nat option"

definition Number :: "string \<Rightarrow> jsnum" where
  "Number p = (if list_all is_digit p then Some (dec_val p) else None)"

text \<open>\<^verbatim>\<open>s.split(c)\<close> for a one-character separator: never empty, \<^verbatim>\<open>"".split(c)\<close> is \<^verbatim>\<open>[""]\<close>.\<close>

fun split :: "char \<Rightarrow> string \<Rightarrow> string list" where
  "split c [] = [[]]"
| "split c (x # xs) =
     (if x = c then [] # split c xs
      else (x # hd (split c xs)) # tl (split c xs))"

definition toLowerCase :: "string \<Rightarrow> string" where
  "toLowerCase s = map (\<lambda>c. if is_upper c then char_of ((of_char c :: nat) + 32) else c) s"

section \<open>The textual address forms accepted by \<^verbatim>\<open>net.isIP\<close>\<close>

text \<open>
  \<^verbatim>\<open>net.isIP\<close> belongs to the Node.js runtime.  It answers 4 for dotted-decimal IPv4 (four
  segments 0..255 without leading zeros), 6 for IPv6 text (hexadecimal groups of one to
  four digits, at most one \<^verbatim>\<open>::\<close>, an optional dotted-decimal tail standing for two
  groups, an optional \<^verbatim>\<open>%zone\<close> suffix) and 0 otherwise.
\<close>

definition is_v4seg :: "string \<Rightarrow> bool" where
  "is_v4seg p = (p \<noteq> [] \<and> length p \<le> 3 \<and> list_all is_digit p
                 \<and> (length p = 1 \<or> hd p \<noteq> CHR ''0'') \<and> dec_val p \<le> 255)"

definition isIPv4 :: "string \<Rightarrow> bool" where
  "isIPv4 s = (case split CHR ''.'' s of
                 [a, b, c, d] \<Rightarrow> is_v4seg a \<and> is_v4seg b \<and> is_v4seg c \<and> is_v4seg d
               | _ \<Rightarrow> False)"

definition is_v6seg :: "string \<Rightarrow> bool" where
  "is_v6seg p = (1 \<le> length p \<and> length p \<le> 4 \<and> list_all is_hex p)"

text \<open>The text before and after the first \<^verbatim>\<open>::\<close>, if there is one.\<close>

fun split_dcolon :: "string \<Rightarrow> (string \<times> string) option" where
  "split_dcolon (a # b # cs) =
     (if a = CHR '':'' \<and> b = CHR '':'' then Some ([], cs)
      else map_option (\<lambda>(l, r). (a # l, r)) (split_dcolon (b # cs)))"
| "split_dcolon _ = None"

text \<open>
  The number of 16-bit groups a colon-separated run stands for; a dotted-decimal last
  element counts for two and is only allowed where \<open>v4_tail\<close> holds.
\<close>

definition v6_groups :: "bool \<Rightarrow> string \<Rightarrow> nat option" where
  "v6_groups v4_tail s =
     (if s = [] then Some 0
      else let ps = split CHR '':'' s in
        if list_all is_v6seg ps then Some (length ps)
        else if v4_tail \<and> list_all is_v6seg (butlast ps) \<and> isIPv4 (last ps)
             then Some (length ps + 1)
        else None)"

definition isIPv6_body :: "string \<Rightarrow> bool" where
  "isIPv6_body s =
     (case split_dcolon s of
        Some (l, r) \<Rightarrow>
          (case (v6_groups False l, v6_groups True r) of
             (Some m, Some n) \<Rightarrow> m + n \<le> 7
           | _ \<Rightarrow> False)
      | None \<Rightarrow> v6_groups True s = Some 8)"

definition is_zone_char :: "char \<Rightarrow> bool" where
  "is_zone_char c = (is_digit c \<or> is_lower c \<or> is_upper c
                     \<or> c = CHR ''-'' \<or> c = CHR ''.'' \<or> c = CHR '':'')"

definition isIPv6 :: "string \<Rightarrow> bool" where
  "isIPv6 s =
     (let body = takeWhile (\<lambda>c. c \<noteq> CHR ''%'') s;
          zone = dropWhile (\<lambda>c. c \<noteq> CHR ''%'') s
      in isIPv6_body body \<and> (zone = [] \<or> (2 \<le> length zone \<and> list_all is_zone_char (tl zone))))"

definition net_isIP :: "string \<Rightarrow> nat" where
  "net_isIP s = (if isIPv4 s then 4 else if isIPv6 s then 6 else 0)"

section \<open>The private-address classifier\<close>

text \<open>\<^verbatim>\<open>const [a, b] = octets\<close>: a missing element is \<^verbatim>\<open>undefined\<close>.\<close>

definition elem :: "jsnum list \<Rightarrow> nat \<Rightarrow> jsnum" where
  "elem xs i = (if i < length xs then xs ! i else None)"

definition js_ge :: "jsnum \<Rightarrow> nat \<Rightarrow> bool" where
  "js_ge x n = (case x of None \<Rightarrow> False | Some v \<Rightarrow> n \<le> v)"

definition js_le :: "jsnum \<Rightarrow> nat \<Rightarrow> bool" where
  "js_le x n = (case x of None \<Rightarrow> False | Some v \<Rightarrow> v \<le> n)"

definition isPrivateIpv4 :: "jsnum list \<Rightarrow> bool" where
  "isPrivateIpv4 octets =
     (let a = elem octets 0; b = elem octets 1 in
      if a = Some 10 then True
      else if a = Some 127 then True
      else if a = Some 169 \<and> b = Some 254 then True
      else if a = Some 192 \<and> b = Some 168 then True
      else if a = Some 172 \<and> js_ge b 16 \<and> js_le b 31 then True
      else if a = Some 0 then True
      else False)"

definition isPrivateIp :: "string \<Rightarrow> bool" where
  "isPrivateIp ip =
     (if net_isIP ip = 4 then
        (let parts = map Number (split CHR ''.'' ip) in isPrivateIpv4 parts)
      else if net_isIP ip = 6 then
        (let lower = toLowerCase ip in
         if lower = ''::1'' then True
         else if prefix ''fe80'' lower \<or> prefix ''fe80:'' lower then True
         else if prefix ''fc'' lower \<or> prefix ''fd'' lower then True
         else False)
      else False)"

section \<open>Addresses behind the text\<close>

text \<open>
  A resolver hands out addresses in their canonical text.  An IPv4 address is a 32-bit
  word printed as four decimal octets; a CIDR block \<open>base/len\<close> holds the addresses whose
  leading \<open>len\<close> bits are those of \<open>base\<close>.
\<close>

type_synonym ipv4 = "32 word"

fun dec_str :: "nat \<Rightarrow> string" where
  "dec_str n = (if n < 10 then [digit_char n] else dec_str (n div 10) @ [digit_char (n mod 10)])"

declare dec_str.simps [simp del]

definition octet :: "ipv4 \<Rightarrow> nat \<Rightarrow> nat" where
  "octet w i = (unat w div 2 ^ (8 * (3 - i))) mod 256"

definition ipv4_text :: "ipv4 \<Rightarrow> string" where
  "ipv4_text w = dec_str (octet w 0) @ ''.'' @ dec_str (octet w 1) @ ''.''
                 @ dec_str (octet w 2) @ ''.'' @ dec_str (octet w 3)"

definition in_cidr4 :: "ipv4 \<Rightarrow> ipv4 \<Rightarrow> nat \<Rightarrow> bool" where
  "in_cidr4 w base len = (unat w div 2 ^ (32 - len) = unat base div 2 ^ (32 - len))"

text \<open>10.0.0.0/8, 127.0.0.0/8, 169.254.0.0/16, 192.168.0.0/16, 172.16.0.0/12, 0.0.0.0/8.\<close>

definition ipv4_private_range :: "ipv4 \<Rightarrow> bool" where
  "ipv4_private_range w =
     (in_cidr4 w 0x0A000000 8 \<or> in_cidr4 w 0x7F000000 8 \<or> in_cidr4 w 0xA9FE0000 16
      \<or> in_cidr4 w 0xC0A80000 16 \<or> in_cidr4 w 0xAC100000 12 \<or> in_cidr4 w 0 8)"

text \<open>
  An IPv6 address is a 128-bit word; \<open>pton6\<close> reads the colon-hexadecimal text (without
  dotted tail or zone), filling the \<^verbatim>\<open>::\<close> with zero groups.
\<close>

type_synonym ipv6 = "128 word"

definition hex_digit_val :: "char \<Rightarrow> nat" where
  "hex_digit_val c = (if is_digit c then of_char c - 48
                      else if is_lower_hex c then of_char c - 87
                      else of_char c - 55)"

definition hex_val :: "string \<Rightarrow> nat" where
  "hex_val s = foldl (\<lambda>n c. 16 * n + hex_digit_val c) 0 s"

definition groups_of :: "string \<Rightarrow> nat list option" where
  "groups_of s =
     (if s = [] then Some []
      else let ps = split CHR '':'' s in
        if list_all is_v6seg ps then Some (map hex_val ps) else None)"

definition pton6 :: "string \<Rightarrow> ipv6 option" where
  "pton6 s =
     (let gs = (case split_dcolon s of
                  Some (l, r) \<Rightarrow>
                    (case (groups_of l, groups_of r) of
                       (Some gl, Some gr) \<Rightarrow>
                         if length gl + length gr \<le> 7
                         then Some (gl @ replicate (8 - length gl - length gr) 0 @ gr)
                         else None
                     | _ \<Rightarrow> None)
                | None \<Rightarrow> groups_of s)
      in case gs of
           Some g \<Rightarrow> if length g = 8 then Some (of_nat (foldl (\<lambda>n x. 65536 * n + x) 0 g))
                     else None
         | None \<Rightarrow> None)"

definition in_cidr6 :: "ipv6 \<Rightarrow> ipv6 \<Rightarrow> nat \<Rightarrow> bool" where
  "in_cidr6 w base len = (unat w div 2 ^ (128 - len) = unat base div 2 ^ (128 - len))"

text \<open>\<^verbatim>\<open>::1\<close>, \<^verbatim>\<open>fc00::/7\<close> and \<^verbatim>\<open>fe80::/10\<close>.\<close>

definition ipv6_private_range :: "ipv6 \<Rightarrow> bool" where
  "ipv6_private_range w =
     (w = 1 \<or> in_cidr6 w 0xfc000000000000000000000000000000 7
      \<or> in_cidr6 w 0xfe800000000000000000000000000000 10)"

section \<open>The handler's world\<close>

text \<open>
  What the handler does to the outside is recorded as a list of effects, in the order
  they happen.  The last three are the points of the timeout wrapper a caller can tell
  apart: the \<^verbatim>\<open>onTimeout\<close> callback being called, the promise it returned settling, and
  the \<^verbatim>\<open>reject(new Error("Timeout"))\<close>.
\<close>

datatype json =
    ErrorJson string
  | ErrorDetailsJson string string
  | SuccessJson "string option" "string option" "string option" nat
  | DebugJson string nat

datatype effect =
    SetHeader string string
  | DnsLookup string
  | Launch
  | SetTimer nat
  | ClearTimer
  | NewContext string
  | NewPage
  | SetDefaultNavigationTimeout nat
  | SetDefaultTimeout nat
  | Goto string
  | Sleep nat
  | Content
  | Evaluate
  | BrowserClose
  | ConsoleError string
  | Respond nat json
  | OnTimeoutCalled
  | OnTimeoutSettled
  | RejectTimeout

text \<open>How an awaited call of an outside service settles.\<close>

datatype outcome = Fulfilled | Rejected string

record url =
  protocol :: string
  hostname :: string

text \<open>
  The outside: \<^verbatim>\<open>new URL(s)\<close> (\<open>None\<close> when it throws), \<^verbatim>\<open>dns.lookup(host, {all: true})\<close>
  (\<open>Inl\<close> when it rejects, else the \<^verbatim>\<open>address\<close> fields in order), and what the loaded page
  answers to \<^verbatim>\<open>page.content()\<close> and to the \<^verbatim>\<open>page.evaluate\<close> query (title, meta
  description, first heading).
\<close>

record env =
  URL :: "string \<Rightarrow> url option"
  dns_lookup :: "string \<Rightarrow> string + string list"
  page_content :: string
  page_evaluate :: "string option \<times> string option \<times> string option"

definition TIMEOUT :: nat where
  "TIMEOUT = 20000"

definition DEFAULT_USER_AGENT :: string where
  "DEFAULT_USER_AGENT =
     ''Mozilla/5.0 (Windows NT 10.0; Win64; x64) AppleWebKit/537.36 (KHTML, like Gecko) Chrome/120.0.0.0 Safari/537.36''"

definition maxAttempts :: nat where
  "maxAttempts = 2"

section \<open>URL validation and the host-safety check\<close>

definition isValidHttpUrl :: "env \<Rightarrow> string \<Rightarrow> bool" where
  "isValidHttpUrl E urlString =
     (case URL E urlString of
        None \<Rightarrow> False
      | Some u \<Rightarrow> protocol u = ''http:'' \<or> protocol u = ''https:'')"

text \<open>The \<^verbatim>\<open>for (const a of addrs)\<close> loop of \<^verbatim>\<open>isHostAllowed\<close>.\<close>

fun addrs_allowed :: "string list \<Rightarrow> bool" where
  "addrs_allowed [] = True"
| "addrs_allowed (ip # rest) =
     (if ip = [] then False
      else if isPrivateIp ip then False
      else addrs_allowed rest)"

text \<open>The answer together with the lookups made; every exception ends in \<^verbatim>\<open>return false\<close>.\<close>

definition isHostAllowed :: "env \<Rightarrow> string \<Rightarrow> bool \<times> effect list" where
  "isHostAllowed E urlString =
     (case URL E urlString of
        None \<Rightarrow> (False, [])
      | Some u \<Rightarrow>
          if hostname u = [] then (False, [])
          else if hostname u = ''localhost'' then (False, [])
          else (case dns_lookup E (hostname u) of
                  Inl e \<Rightarrow> (False, [DnsLookup (hostname u)])
                | Inr addrs \<Rightarrow>
                    (if addrs = [] then False else addrs_allowed addrs,
                     [DnsLookup (hostname u)])))"

section \<open>The browser session and its cleanup\<close>

datatype Browser = Chromium

record session =
  browser :: "Browser option"
  pageClosed :: bool

text \<open>The test \<^verbatim>\<open>!pageClosed && browser\<close> that guards the close.\<close>

definition cleanup_guard :: "session \<Rightarrow> bool" where
  "cleanup_guard s = (\<not> pageClosed s \<and> browser s \<noteq> None)"

text \<open>
  The body of the \<^verbatim>\<open>try\<close> once \<^verbatim>\<open>await browser.close()\<close> has settled: a rejection is
  thrown, otherwise the flag is set.
\<close>

definition close_awaited :: "outcome \<Rightarrow> session \<Rightarrow> string + session" where
  "close_awaited oc s =
     (case oc of Rejected e \<Rightarrow> Inl e | Fulfilled \<Rightarrow> Inr (s\<lparr>pageClosed := True\<rparr>))"

text \<open>The same with the empty \<^verbatim>\<open>catch\<close> around it.\<close>

definition cleanup_after_close :: "outcome \<Rightarrow> session \<Rightarrow> string + session" where
  "cleanup_after_close oc s =
     (case close_awaited oc s of Inl e \<Rightarrow> Inr s | Inr s' \<Rightarrow> Inr s')"

text \<open>
  One whole call of \<^verbatim>\<open>cleanup\<close>, given how \<^verbatim>\<open>browser.close()\<close> would settle: the result
  (\<open>Inl\<close> if it threw) and the effects.
\<close>

definition cleanup :: "outcome \<Rightarrow> session \<Rightarrow> (string + session) \<times> effect list" where
  "cleanup oc s =
     (if cleanup_guard s then (cleanup_after_close oc s, [BrowserClose])
      else (Inr s, []))"

text \<open>Two calls in sequence; the second runs on the session the first one left.\<close>

definition cleanup_twice ::
  "outcome \<Rightarrow> outcome \<Rightarrow> session \<Rightarrow> (string + session) \<times> effect list" where
  "cleanup_twice oc1 oc2 s =
     (case cleanup oc1 s of
        (Inl e, t1) \<Rightarrow> (Inl e, t1)
      | (Inr s1, t1) \<Rightarrow> (case cleanup oc2 s1 of (r, t2) \<Rightarrow> (r, t1 @ t2)))"

section \<open>The handler as a machine driven by completions\<close>

text \<open>
  After the host check the handler runs three activities that share the session: the
  scraping operation (the \<^verbatim>\<open>async\<close> function passed to \<^verbatim>\<open>withTimeout\<close>), the timer of
  \<^verbatim>\<open>withTimeout\<close>, and the handler itself, which waits for the race and then answers.
  JavaScript runs each of them without interruption from one \<^verbatim>\<open>await\<close> of an outside
  call to the next, so a run is determined by the order in which the outside calls
  settle and the timer fires.  The model stops at the response.
\<close>

datatype completion =
    OpSettles outcome
  | TimerFires
  | TimerCloseSettles outcome
  | CatchCloseSettles outcome

text \<open>
  Where the operation waits: the call it awaits, with the loop counter \<^verbatim>\<open>attempt\<close> where
  it is live.  \<open>AwaitCloseDebug\<close> and \<open>AwaitCloseSummary\<close> are the
  \<^verbatim>\<open>await browser.close()\<close> inside the operation's own \<^verbatim>\<open>await cleanup()\<close>.
\<close>

datatype op_state =
    AwaitLaunch
  | AwaitNewContext
  | AwaitNewPage
  | AwaitGoto nat
  | AwaitSleep nat
  | AwaitContent
  | AwaitCloseDebug
  | AwaitEvaluate
  | AwaitCloseSummary
  | OpDone

text \<open>
  The timer is armed, or its callback waits for the \<^verbatim>\<open>browser.close()\<close> of the
  \<^verbatim>\<open>onTimeout\<close> cleanup, or it is over (cleared, or fired and done).
\<close>

datatype timer_state = Armed | TimerAwaitsClose | TimerDone

text \<open>
  The handler waits for the race, or waits for the \<^verbatim>\<open>browser.close()\<close> of the cleanup
  in its \<^verbatim>\<open>catch\<close> block with the response it will send, or has responded, or has let an
  exception escape.
\<close>

datatype main_state =
    Racing
  | CatchAwaitsClose nat json
  | Responded nat json
  | Unhandled string

record config =
  operation :: op_state
  timer :: timer_state
  main :: main_state
  sess :: session
  trace :: "effect list"

definition emit :: "effect list \<Rightarrow> config \<Rightarrow> config" where
  "emit es c = c\<lparr>trace := trace c @ es\<rparr>"

definition respond :: "nat \<Rightarrow> json \<Rightarrow> config \<Rightarrow> config" where
  "respond st j c = emit [Respond st j] (c\<lparr>main := Responded st j\<rparr>)"

text \<open>\<^verbatim>\<open>message.includes(x)\<close>.\<close>

fun js_includes :: "string \<Rightarrow> string \<Rightarrow> bool" where
  "js_includes [] x = (x = [])"
| "js_includes (c # s) x = (prefix x (c # s) \<or> js_includes s x)"

text \<open>\<^verbatim>\<open>await cleanup(); return res.status(st).json(j)\<close>, as every branch of the \<^verbatim>\<open>catch\<close> does.\<close>

definition cleanup_then_respond :: "nat \<Rightarrow> json \<Rightarrow> config \<Rightarrow> config" where
  "cleanup_then_respond st j c =
     (if cleanup_guard (sess c)
      then emit [BrowserClose] (c\<lparr>main := CatchAwaitsClose st j\<rparr>)
      else respond st j c)"

definition playwright_hint :: string where
  "playwright_hint =
     ''Playwright browsers not installed. Run '' @ [CHR 0x27] @ ''npx playwright install'' @ [CHR 0x27]"

definition no_executable :: string where
  "no_executable = ''Executable doesn'' @ [CHR 0x27] @ ''t exist''"

text \<open>The \<^verbatim>\<open>catch (err)\<close> block of the handler, entered with the message of the error.\<close>

definition handler_catch :: "bool \<Rightarrow> string \<Rightarrow> config \<Rightarrow> config" where
  "handler_catch debug message c =
     (let c1 = emit [ConsoleError message] c in
      if js_includes message no_executable \<or> js_includes message ''download new browsers''
      then cleanup_then_respond 500 (ErrorJson playwright_hint) c1
      else if message = ''Timeout''
      then cleanup_then_respond 504 (ErrorJson ''Timeout'') c1
      else if debug
      then cleanup_then_respond 500 (ErrorDetailsJson ''Failed to scrape page'' message) c1
      else cleanup_then_respond 500 (ErrorJson ''Failed to scrape page'') c1)"

text \<open>The \<^verbatim>\<open>finally { clearTimeout(timer) }\<close> of \<^verbatim>\<open>withTimeout\<close>: an armed timer never fires.\<close>

definition clearTimeout :: "config \<Rightarrow> config" where
  "clearTimeout c =
     emit [ClearTimer] (c\<lparr>timer := (if timer c = Armed then TimerDone else timer c)\<rparr>)"

text \<open>
  The operation's promise settles.  If the race is still open it decides it:
  \<^verbatim>\<open>withTimeout\<close> clears the timer and the handler answers 200 or enters its \<^verbatim>\<open>catch\<close>.
  Otherwise nobody listens any more.
\<close>

definition op_fulfilled :: "json \<Rightarrow> config \<Rightarrow> config" where
  "op_fulfilled j c =
     (let c1 = c\<lparr>operation := OpDone\<rparr> in
      if main c1 = Racing then respond 200 j (clearTimeout c1) else c1)"

definition op_rejected :: "bool \<Rightarrow> string \<Rightarrow> config \<Rightarrow> config" where
  "op_rejected debug err c =
     (let c1 = c\<lparr>operation := OpDone\<rparr> in
      if main c1 = Racing then handler_catch debug err (clearTimeout c1) else c1)"

text \<open>The operation calls \<^verbatim>\<open>await cleanup()\<close> and then returns \<open>j\<close>.\<close>

definition op_cleanup :: "json \<Rightarrow> op_state \<Rightarrow> config \<Rightarrow> config" where
  "op_cleanup j waiting c =
     (if cleanup_guard (sess c) then emit [BrowserClose] (c\<lparr>operation := waiting\<rparr>)
      else op_fulfilled j c)"

definition debug_result :: "env \<Rightarrow> json" where
  "debug_result E = DebugJson (page_content E) 200"

definition summary_result :: "env \<Rightarrow> json" where
  "summary_result E = (case page_evaluate E of (t, m, h) \<Rightarrow> SuccessJson t m h 200)"

text \<open>After the navigation loop: full HTML in debug mode, the three fields otherwise.\<close>

definition after_navigation :: "bool \<Rightarrow> config \<Rightarrow> config" where
  "after_navigation debug c =
     (if debug then emit [Content] (c\<lparr>operation := AwaitContent\<rparr>)
      else emit [Evaluate] (c\<lparr>operation := AwaitEvaluate\<rparr>))"

text \<open>The head of \<^verbatim>\<open>for (let attempt = 1; attempt <= maxAttempts; attempt++)\<close>.\<close>

definition loop_head :: "string \<Rightarrow> bool \<Rightarrow> nat \<Rightarrow> config \<Rightarrow> config" where
  "loop_head target debug attempt c =
     (if attempt \<le> maxAttempts then emit [Goto target] (c\<lparr>operation := AwaitGoto attempt\<rparr>)
      else after_navigation debug c)"

text \<open>The call the operation awaits settles, and the operation runs to its next \<^verbatim>\<open>await\<close>.\<close>

fun op_step :: "env \<Rightarrow> string \<Rightarrow> bool \<Rightarrow> outcome \<Rightarrow> op_state \<Rightarrow> config \<Rightarrow> config" where
  "op_step E target debug oc OpDone c = c"
| "op_step E target debug oc (AwaitSleep attempt) c = loop_head target debug (attempt + 1) c"
| "op_step E target debug oc AwaitCloseDebug c =
     (case cleanup_after_close oc (sess c) of
        Inr s' \<Rightarrow> op_fulfilled (debug_result E) (c\<lparr>sess := s'\<rparr>)
      | Inl e \<Rightarrow> op_rejected debug e c)"
| "op_step E target debug oc AwaitCloseSummary c =
     (case cleanup_after_close oc (sess c) of
        Inr s' \<Rightarrow> op_fulfilled (summary_result E) (c\<lparr>sess := s'\<rparr>)
      | Inl e \<Rightarrow> op_rejected debug e c)"
| "op_step E target debug (Rejected err) (AwaitGoto attempt) c =
     (if attempt = maxAttempts then op_rejected debug err c
      else emit [Sleep 250] (c\<lparr>operation := AwaitSleep attempt\<rparr>))"
| "op_step E target debug (Rejected err) w c = op_rejected debug err c"
| "op_step E target debug Fulfilled AwaitLaunch c =
     emit [NewContext DEFAULT_USER_AGENT]
       (c\<lparr>sess := (sess c)\<lparr>browser := Some Chromium\<rparr>, operation := AwaitNewContext\<rparr>)"
| "op_step E target debug Fulfilled AwaitNewContext c =
     emit [NewPage] (c\<lparr>operation := AwaitNewPage\<rparr>)"
| "op_step E target debug Fulfilled AwaitNewPage c =
     loop_head target debug 1
       (emit [SetDefaultNavigationTimeout (TIMEOUT - 2000), SetDefaultTimeout (TIMEOUT - 2000)] c)"
| "op_step E target debug Fulfilled (AwaitGoto attempt) c = after_navigation debug c"
| "op_step E target debug Fulfilled AwaitContent c =
     op_cleanup (debug_result E) AwaitCloseDebug c"
| "op_step E target debug Fulfilled AwaitEvaluate c =
     op_cleanup (summary_result E) AwaitCloseSummary c"

text \<open>
  \<^verbatim>\<open>reject(new Error("Timeout"))\<close>: if the race is still open, \<^verbatim>\<open>withTimeout\<close> throws and
  the handler enters its \<^verbatim>\<open>catch\<close> with the message \<^verbatim>\<open>Timeout\<close>.
\<close>

definition reject_timeout :: "bool \<Rightarrow> config \<Rightarrow> config" where
  "reject_timeout debug c =
     (let c1 = emit [RejectTimeout] c in
      if main c1 = Racing then handler_catch debug ''Timeout'' (clearTimeout c1) else c1)"

text \<open>
  The callback of \<^verbatim>\<open>setTimeout\<close>.  \<^verbatim>\<open>onTimeout\<close> is the \<^verbatim>\<open>async\<close> function that awaits
  \<^verbatim>\<open>cleanup()\<close>, so it returns a promise and the callback rejects only from that
  promise's \<^verbatim>\<open>then\<close> or \<^verbatim>\<open>catch\<close>.  With nothing to close the promise settles at once.
\<close>

definition timer_fires :: "bool \<Rightarrow> config \<Rightarrow> config" where
  "timer_fires debug c =
     (if timer c = Armed then
        (let c1 = emit [OnTimeoutCalled] c in
         if cleanup_guard (sess c1)
         then emit [BrowserClose] (c1\<lparr>timer := TimerAwaitsClose\<rparr>)
         else reject_timeout debug (emit [OnTimeoutSettled] (c1\<lparr>timer := TimerDone\<rparr>)))
      else c)"

definition timer_close_settles :: "bool \<Rightarrow> outcome \<Rightarrow> config \<Rightarrow> config" where
  "timer_close_settles debug oc c =
     (if timer c = TimerAwaitsClose then
        (case cleanup_after_close oc (sess c) of
           Inr s' \<Rightarrow>
             reject_timeout debug (emit [OnTimeoutSettled] (c\<lparr>sess := s', timer := TimerDone\<rparr>))
         | Inl e \<Rightarrow>
             reject_timeout debug (emit [OnTimeoutSettled] (c\<lparr>timer := TimerDone\<rparr>)))
      else c)"

definition catch_close_settles :: "outcome \<Rightarrow> config \<Rightarrow> config" where
  "catch_close_settles oc c =
     (case main c of
        CatchAwaitsClose st j \<Rightarrow>
          (case cleanup_after_close oc (sess c) of
             Inr s' \<Rightarrow> respond st j (c\<lparr>sess := s'\<rparr>)
           | Inl e \<Rightarrow> c\<lparr>main := Unhandled e\<rparr>)
      | _ \<Rightarrow> c)"

definition finished :: "config \<Rightarrow> bool" where
  "finished c = (case main c of Responded st j \<Rightarrow> True | Unhandled e \<Rightarrow> True | _ \<Rightarrow> False)"

definition step :: "env \<Rightarrow> string \<Rightarrow> bool \<Rightarrow> completion \<Rightarrow> config \<Rightarrow> config" where
  "step E target debug ev c =
     (if finished c then c
      else case ev of
             OpSettles oc \<Rightarrow> op_step E target debug oc (operation c) c
           | TimerFires \<Rightarrow> timer_fires debug c
           | TimerCloseSettles oc \<Rightarrow> timer_close_settles debug oc c
           | CatchCloseSettles oc \<Rightarrow> catch_close_settles oc c)"

definition run :: "env \<Rightarrow> string \<Rightarrow> bool \<Rightarrow> completion list \<Rightarrow> config \<Rightarrow> config" where
  "run E target debug evs c = foldl (\<lambda>c ev. step E target debug ev c) c evs"

text \<open>
  The call of \<^verbatim>\<open>withTimeout\<close>: its first argument starts the operation, which runs up to
  \<^verbatim>\<open>await chromium.launch\<close>; then the timer is set.
\<close>

definition start :: "effect list \<Rightarrow> config" where
  "start lookups =
     \<lparr>operation = AwaitLaunch, timer = Armed, main = Racing,
      sess = \<lparr>browser = None, pageClosed = False\<rparr>,
      trace = lookups @ [Launch, SetTimer TIMEOUT]\<rparr>"

section \<open>The request handler\<close>

text \<open>A query parameter of the request: missing, one value, or several.\<close>

datatype query = Absent | Single string | Multi "string list"

record request =
  http_method :: string
  query_url :: query
  query_debug :: query

text \<open>\<^verbatim>\<open>Array.isArray(q) ? q[0] : q\<close>, with \<open>None\<close> for \<^verbatim>\<open>undefined\<close>.\<close>

definition first_value :: "query \<Rightarrow> string option" where
  "first_value q =
     (case q of Absent \<Rightarrow> None | Single v \<Rightarrow> Some v
      | Multi vs \<Rightarrow> (case vs of [] \<Rightarrow> None | v # rest \<Rightarrow> Some v))"

definition debug_flag :: "request \<Rightarrow> bool" where
  "debug_flag req = (query_debug req = Single ''true'' \<or> query_debug req = Single ''1'')"

text \<open>
  The handler, on a request, an environment and the completions that arrive: the
  response it has sent (if any) and the effects so far.
\<close>

definition handler :: "env \<Rightarrow> request \<Rightarrow> completion list \<Rightarrow> (nat \<times> json) option \<times> effect list" where
  "handler E req evs =
     (if http_method req \<noteq> ''GET''
      then (Some (405, ErrorJson ''Method Not Allowed''),
            [SetHeader ''Allow'' ''GET'', Respond 405 (ErrorJson ''Method Not Allowed'')])
      else case first_value (query_url req) of
        None \<Rightarrow> (Some (400, ErrorJson ''Invalid URL''), [Respond 400 (ErrorJson ''Invalid URL'')])
      | Some target \<Rightarrow>
          if target = [] \<or> \<not> isValidHttpUrl E target
          then (Some (400, ErrorJson ''Invalid URL''), [Respond 400 (ErrorJson ''Invalid URL'')])
          else case isHostAllowed E target of (hostAllowed, lookups) \<Rightarrow>
            if \<not> hostAllowed
            then (Some (400, ErrorJson ''Invalid URL or disallowed host''),
                  lookups @ [Respond 400 (ErrorJson ''Invalid URL or disallowed host'')])
            else let c = run E target (debug_flag req) evs (start lookups) in
              (case main c of Responded st j \<Rightarrow> Some (st, j) | _ \<Rightarrow> None, trace c))"

section \<open>A sample environment\<close>

definition sample_URL :: "string \<Rightarrow> url option" where
  "sample_URL s =
     (if s = ''https://example.com'' then Some \<lparr>protocol = ''https:'', hostname = ''example.com''\<rparr>
      else if s = ''http://169.254.169.254/'' then Some \<lparr>protocol = ''http:'', hostname = ''169.254.169.254''\<rparr>
      else if s = ''http://localhost/'' then Some \<lparr>protocol = ''http:'', hostname = ''localhost''\<rparr>
      else if s = ''http://mixed.example/'' then Some \<lparr>protocol = ''http:'', hostname = ''mixed.example''\<rparr>
      else if s = ''http://empty.example/'' then Some \<lparr>protocol = ''http:'', hostname = ''empty.example''\<rparr>
      else if s = ''http://nxdomain.example/'' then Some \<lparr>protocol = ''http:'', hostname = ''nxdomain.example''\<rparr>
      else if s = ''ftp://example.com/'' then Some \<lparr>protocol = ''ftp:'', hostname = ''example.com''\<rparr>
      else if s = ''http://linklocal.example/'' then Some \<lparr>protocol = ''http:'', hostname = ''linklocal.example''\<rparr>
      else None)"

definition sample_dns :: "string \<Rightarrow> string + string list" where
  "sample_dns h =
     (if h = ''example.com'' then Inr [''93.184.216.34'']
      else if h = ''169.254.169.254'' then Inr [''169.254.169.254'']
      else if h = ''mixed.example'' then Inr [''93.184.216.34'', ''10.0.0.5'']
      else if h = ''empty.example'' then Inr []
      else if h = ''linklocal.example'' then Inr [''93.184.216.34'', ''fe90::1'']
      else Inl ''getaddrinfo ENOTFOUND'')"

definition sample_env :: env where
  "sample_env =
     \<lparr>URL = sample_URL, dns_lookup = sample_dns,
      page_content = ''<title>A</title><meta name=\"description\" content=\"B\"><h1>C</h1>'',
      page_evaluate = (Some ''A'', Some ''B'', Some ''C'')\<rparr>"

definition get_request :: "string \<Rightarrow> request" where
  "get_request target = \<lparr>http_method = ''GET'', query_url = Single target, query_debug = Absent\<rparr>"

definition live_session :: session where
  "live_session = \<lparr>browser = Some Chromium, pageClosed = False\<rparr>"

section \<open>What a step may add to the trace\<close>

text \<open>
  The effects a step of the machine can append for a given target URL, with the
  arguments they then carry; \<open>extends target c c'\<close> says that the trace of \<open>c'\<close> is the
  trace of \<open>c\<close> followed by such effects.
\<close>

definition emitted_by_step :: "string \<Rightarrow> effect \<Rightarrow> bool" where
  "emitted_by_step target e =
     (case e of
        SetHeader k v \<Rightarrow> False
      | DnsLookup h \<Rightarrow> False
      | Launch \<Rightarrow> False
      | SetTimer n \<Rightarrow> False
      | SetDefaultNavigationTimeout n \<Rightarrow> n = 18000
      | SetDefaultTimeout n \<Rightarrow> n = 18000
      | Goto u \<Rightarrow> u = target
      | Sleep n \<Rightarrow> n = 250
      | NewContext ua \<Rightarrow> ua = DEFAULT_USER_AGENT
      | _ \<Rightarrow> True)"

definition extends :: "string \<Rightarrow> config \<Rightarrow> config \<Rightarrow> bool" where
  "extends target c c' = (\<exists>es. trace c' = trace c @ es \<and> list_all (emitted_by_step target) es)"

section \<open>Counting navigations, comparing configurations\<close>

text \<open>The number of \<^verbatim>\<open>page.goto\<close> calls in a trace.\<close>

definition navigations :: "effect list \<Rightarrow> nat" where
  "navigations tr = length (filter (\<lambda>e. case e of Goto u \<Rightarrow> True | _ \<Rightarrow> False) tr)"

text \<open>Two configurations that differ at most in their traces.\<close>

definition same_control :: "config \<Rightarrow> config \<Rightarrow> bool" where
  "same_control c c' =
     (operation c = operation c' \<and> timer c = timer c' \<and> main c = main c' \<and> sess c = sess c')"

text \<open>
  How the loop counter and the number of navigations so far belong together at each
  point of the operation.
\<close>

definition nav_inv :: "config \<Rightarrow> bool" where
  "nav_inv c =
     (case operation c of
        AwaitLaunch \<Rightarrow> navigations (trace c) = 0
      | AwaitNewContext \<Rightarrow> navigations (trace c) = 0
      | AwaitNewPage \<Rightarrow> navigations (trace c) = 0
      | AwaitGoto a \<Rightarrow> navigations (trace c) = a \<and> a \<le> 2
      | AwaitSleep a \<Rightarrow> navigations (trace c) = a \<and> a < 2
      | _ \<Rightarrow> navigations (trace c) \<le> 2)"

text \<open>
  \<open>quiet c c'\<close>: from \<open>c\<close> to \<open>c'\<close> the operation stayed where it was and no navigation
  was added; \<open>ended c c'\<close>: the operation finished and no navigation was added.
\<close>

definition quiet :: "config \<Rightarrow> config \<Rightarrow> bool" where
  "quiet c c' = (operation c' = operation c \<and> navigations (trace c') = navigations (trace c))"

definition ended :: "config \<Rightarrow> config \<Rightarrow> bool" where
  "ended c c' = (operation c' = OpDone \<and> navigations (trace c') = navigations (trace c))"

section \<open>The three marks of a timeout\<close>




section \<open>Properties of the cleanup routine\<close>

lemmas cleanup_defs = cleanup_def cleanup_guard_def cleanup_after_close_def close_awaited_def

text \<open>
  Claim C10.  The cleanup routine never throws: whether the browser has not been
  launched, is live, or \<^verbatim>\<open>browser.close()\<close> itself rejects, the call completes normally;
  a rejection of the close (which the \<^verbatim>\<open>try\<close> body does throw) is swallowed.  The browser
  variable is untouched, and the flag is set afterwards exactly if it was set before or a
  close was made and succeeded, so a failed close leaves it unset.
\<close>

theorem cleanup_never_throws:
  "(\<exists>s'. fst (cleanup oc s) = Inr s' \<and> browser s' = browser s
         \<and> pageClosed s' = (pageClosed s \<or> (browser s \<noteq> None \<and> oc = Fulfilled)))
   \<and> close_awaited (Rejected e) s = Inl e
   \<and> fst (cleanup (Rejected e) s) = Inr s"
  by (cases oc) (auto simp: cleanup_defs)

theorem cleanup_never_throws_witness:
  "fst (cleanup (Rejected ''close failed'') live_session) = Inr live_session
   \<and> fst (cleanup Fulfilled live_session) = Inr \<lparr>browser = Some Chromium, pageClosed = True\<rparr>
   \<and> fst (cleanup Fulfilled \<lparr>browser = None, pageClosed = False\<rparr>)
       = Inr \<lparr>browser = None, pageClosed = False\<rparr>"
  using cleanup_never_throws [of Fulfilled live_session "''close failed''"]
    cleanup_never_throws [of Fulfilled "\<lparr>browser = None, pageClosed = False\<rparr>" "''close failed''"]
  by (auto simp: live_session_def)

text \<open>
  Claim C9, as stated, says that the second of two cleanup calls in sequence always sees
  the flag and does nothing.  It fails when the first \<^verbatim>\<open>browser.close()\<close> rejects: the
  flag stays unset and the second call closes again.
\<close>

theorem cleanup_second_call_counterexample:
  "cleanup (Rejected ''close failed'') live_session = (Inr live_session, [BrowserClose])
   \<and> cleanup Fulfilled live_session
       = (Inr \<lparr>browser = Some Chromium, pageClosed = True\<rparr>, [BrowserClose])
   \<and> snd (cleanup_twice (Rejected ''close failed'') Fulfilled live_session)
       = [BrowserClose, BrowserClose]"
  by (simp add: cleanup_twice_def cleanup_defs live_session_def)

text \<open>
  Claim C9, amended.  Two cleanup calls in sequence never raise.  When the first call's
  \<^verbatim>\<open>browser.close()\<close> succeeds, or the first call had nothing to close, the second call
  is a no-op (no close, session unchanged), so close is invoked at most once.  When the
  first \<^verbatim>\<open>browser.close()\<close> rejects, the flag stays unset and the second call invokes
  \<^verbatim>\<open>browser.close()\<close> again.
\<close>

theorem cleanup_twice_amended:
  "(\<exists>s2. fst (cleanup_twice oc1 oc2 s) = Inr s2)
   \<and> (oc1 = Fulfilled \<or> \<not> cleanup_guard s \<longrightarrow>
        (\<exists>s1 t1. cleanup oc1 s = (Inr s1, t1) \<and> cleanup oc2 s1 = (Inr s1, [])
                 \<and> cleanup_twice oc1 oc2 s = (Inr s1, t1) \<and> length t1 \<le> 1))
   \<and> (cleanup_guard s \<and> oc1 = Rejected e \<longrightarrow>
        cleanup oc1 s = (Inr s, [BrowserClose])
        \<and> cleanup_twice oc1 oc2 s = (fst (cleanup oc2 s), [BrowserClose, BrowserClose]))"
  by (cases oc1; cases oc2) (auto simp: cleanup_twice_def cleanup_defs)

theorem cleanup_twice_amended_witness:
  "cleanup_guard live_session
   \<and> cleanup_twice Fulfilled Fulfilled live_session
       = (Inr \<lparr>browser = Some Chromium, pageClosed = True\<rparr>, [BrowserClose])
   \<and> cleanup_twice (Rejected ''close failed'') Fulfilled live_session
       = (Inr \<lparr>browser = Some Chromium, pageClosed = True\<rparr>, [BrowserClose, BrowserClose])"
  using cleanup_twice_amended [of Fulfilled Fulfilled live_session "''close failed''"]
    cleanup_twice_amended [of "Rejected ''close failed''" Fulfilled live_session "''close failed''"]
  by (auto simp: cleanup_defs live_session_def)

section \<open>Properties of the host-safety check\<close>

text \<open>
  Claim C7.  A URL whose hostname is the literal \<^verbatim>\<open>localhost\<close> is rejected, and the check
  returns before any \<^verbatim>\<open>dns.lookup\<close>: its list of lookups is empty.
\<close>

theorem localhost_rejected_without_lookup:
  assumes "URL E urlString = Some u" and "hostname u = ''localhost''"
  shows "isHostAllowed E urlString = (False, [])"
  using assms by (simp add: isHostAllowed_def)

theorem localhost_rejected_without_lookup_witness:
  "URL sample_env ''http://localhost/'' = Some \<lparr>protocol = ''http:'', hostname = ''localhost''\<rparr>
   \<and> isHostAllowed sample_env ''http://localhost/'' = (False, [])"
  using localhost_rejected_without_lookup
    [of sample_env "''http://localhost/''" "\<lparr>protocol = ''http:'', hostname = ''localhost''\<rparr>"]
  by (simp add: sample_env_def sample_URL_def)

text \<open>
  Claim C4.  For a GET request with a valid http(s) URL whose hostname fails to resolve
  (the lookup rejects) or resolves to no address, the host-safety check answers false and
  the handler answers 400 \<^verbatim>\<open>Invalid URL or disallowed host\<close>, whatever happens afterwards.
\<close>

theorem dns_failure_fails_closed:
  assumes "http_method req = ''GET''"
    and "first_value (query_url req) = Some target"
    and "target \<noteq> []"
    and "isValidHttpUrl E target"
    and "URL E target = Some u"
    and "dns_lookup E (hostname u) = Inl e \<or> dns_lookup E (hostname u) = Inr []"
  shows "fst (isHostAllowed E target) = False
         \<and> fst (handler E req evs) = Some (400, ErrorJson ''Invalid URL or disallowed host'')"
proof -
  from assms(5,6) have "fst (isHostAllowed E target) = False"
    by (auto simp: isHostAllowed_def)
  with assms(1-4) show ?thesis
    by (cases "isHostAllowed E target") (simp add: handler_def)
qed

theorem dns_failure_fails_closed_witness:
  "fst (isHostAllowed sample_env ''http://nxdomain.example/'') = False
   \<and> fst (handler sample_env (get_request ''http://nxdomain.example/'') [])
       = Some (400, ErrorJson ''Invalid URL or disallowed host'')
   \<and> dns_lookup sample_env ''nxdomain.example'' = Inl ''getaddrinfo ENOTFOUND''"
  using dns_failure_fails_closed
    [of "get_request ''http://nxdomain.example/''" "''http://nxdomain.example/''" sample_env
        "\<lparr>protocol = ''http:'', hostname = ''nxdomain.example''\<rparr>" "''getaddrinfo ENOTFOUND''" "[]"]
  by (simp add: sample_env_def sample_URL_def sample_dns_def get_request_def first_value_def
      isValidHttpUrl_def)

section \<open>Dotted-decimal text and the IPv4 ranges\<close>

lemma of_char_digit_char: "d < 10 \<Longrightarrow> (of_char (digit_char d) :: nat) = 48 + d"
  by (simp add: digit_char_def)

lemma is_digit_digit_char: "d < 10 \<Longrightarrow> is_digit (digit_char d)"
  by (simp add: is_digit_def of_char_digit_char)

lemma dec_str_digits: "c \<in> set (dec_str n) \<Longrightarrow> is_digit c"
proof (induction n rule: dec_str.induct)
  case (1 n)
  show ?case
  proof (cases "n < 10")
    case True
    with "1.prems" show ?thesis by (simp add: dec_str.simps [of n] is_digit_digit_char)
  next
    case False
    with "1.prems" "1.IH" show ?thesis
      by (auto simp: dec_str.simps [of n] is_digit_digit_char)
  qed
qed

lemma dec_val_snoc: "dec_val (xs @ [c]) = 10 * dec_val xs + digit_val c"
  by (simp add: dec_val_def)

lemma digit_val_char: "d < 10 \<Longrightarrow> digit_val (digit_char d) = d"
  by (simp add: digit_val_def of_char_digit_char)

lemma dec_val_dec_str: "dec_val (dec_str n) = n"
proof (induction n rule: dec_str.induct)
  case (1 n)
  show ?case
  proof (cases "n < 10")
    case True
    then show ?thesis by (simp add: dec_str.simps [of n] dec_val_def digit_val_char)
  next
    case False
    with "1.IH" show ?thesis
      by (simp add: dec_str.simps [of n] dec_val_snoc digit_val_char)
  qed
qed

lemma dec_str_nonempty: "dec_str n \<noteq> []"
  by (subst dec_str.simps) simp

lemma dec_str_small: "n < 10 \<Longrightarrow> length (dec_str n) = 1"
  by (simp add: dec_str.simps [of n])
lemma dec_str_step: "\<not> n < 10 \<Longrightarrow> length (dec_str n) = Suc (length (dec_str (n div 10)))"
  by (simp add: dec_str.simps [of n])
lemma dec_str_length: 
  assumes "n < 1000" shows "length (dec_str n) \<le> 3"
proof (cases "n < 10")
  case True
  then show ?thesis by (simp add: dec_str_small)
next
  case False
  note n10 = this
  show ?thesis
  proof (cases "n div 10 < 10")
    case True
    with n10 show ?thesis by (simp add: dec_str_step dec_str_small)
  next
    case False
    have "n div 10 div 10 < 10" using assms by arith
    then have "length (dec_str (n div 10 div 10)) = 1" by (rule dec_str_small)
    moreover have "length (dec_str (n div 10)) = Suc (length (dec_str (n div 10 div 10)))"
      using False by (rule dec_str_step)
    moreover have "length (dec_str n) = Suc (length (dec_str (n div 10)))"
      using n10 by (rule dec_str_step)
    ultimately show ?thesis by linarith
  qed
qed

lemma digit_char_zero: "d < 10 \<Longrightarrow> digit_char d = CHR ''0'' \<Longrightarrow> d = 0"
proof -
  assume d: "d < 10" and e: "digit_char d = CHR ''0''"
  have "(of_char (digit_char d) :: nat) = of_char (CHR ''0'')" using e by simp
  with d show "d = 0" by (simp add: of_char_digit_char)
qed

lemma dec_str_hd: "0 < n \<Longrightarrow> hd (dec_str n) \<noteq> CHR ''0''"
proof (induction n rule: dec_str.induct)
  case (1 n)
  show ?case
  proof (cases "n < 10")
    case True
    with "1.prems" show ?thesis by (auto simp: dec_str.simps [of n] dest: digit_char_zero)
  next
    case False
    then have "0 < n div 10" by simp
    with False "1.IH" show ?thesis
      by (simp add: dec_str.simps [of n] dec_str_nonempty)
  qed
qed

lemma dec_str_single: "length (dec_str 0) = 1"
  by (simp add: dec_str.simps [of 0])

lemma is_v4seg_dec_str: "n < 256 \<Longrightarrow> is_v4seg (dec_str n)"
proof -
  assume n: "n < 256"
  have "length (dec_str n) = 1 \<or> hd (dec_str n) \<noteq> CHR ''0''"
    using dec_str_hd [of n] dec_str_single by (cases "n = 0") auto
  with n show ?thesis
    by (simp add: is_v4seg_def dec_str_nonempty dec_str_length dec_val_dec_str
        list_all_iff dec_str_digits)
qed

lemma Number_dec_str: "Number (dec_str n) = Some n"
  by (simp add: Number_def list_all_iff dec_str_digits dec_val_dec_str)

lemma digit_not_dot: "is_digit c \<Longrightarrow> c \<noteq> CHR ''.''"
  by (auto simp: is_digit_def)

lemma dec_str_no_dot: "CHR ''.'' \<notin> set (dec_str n)"
  using dec_str_digits digit_not_dot by blast

lemma split_no_sep: "c \<notin> set a \<Longrightarrow> split c a = [a]"
  by (induction a) auto

lemma split_at_sep: "c \<notin> set a \<Longrightarrow> split c (a @ c # rest) = a # split c rest"
  by (induction a) auto

lemma split_ipv4_text:
  "split CHR ''.'' (ipv4_text w)
     = [dec_str (octet w 0), dec_str (octet w 1), dec_str (octet w 2), dec_str (octet w 3)]"
  by (simp add: ipv4_text_def split_at_sep split_no_sep dec_str_no_dot)

lemma octet_bound: "octet w i < 256"
  by (simp add: octet_def)

lemma isIPv4_ipv4_text: "isIPv4 (ipv4_text w)"
  by (simp add: isIPv4_def split_ipv4_text is_v4seg_dec_str octet_bound)

lemma net_isIP_ipv4_text: "net_isIP (ipv4_text w) = 4"
  by (simp add: net_isIP_def isIPv4_ipv4_text)

lemma isPrivateIp_ipv4_text:
  "isPrivateIp (ipv4_text w)
     = isPrivateIpv4 [Some (octet w 0), Some (octet w 1), Some (octet w 2), Some (octet w 3)]"
  by (simp add: isPrivateIp_def net_isIP_ipv4_text split_ipv4_text Number_dec_str)

lemma isPrivateIpv4_octets:
  "isPrivateIpv4 [Some a, Some b, Some c, Some d]
     = (a = 10 \<or> a = 127 \<or> (a = 169 \<and> b = 254) \<or> (a = 192 \<and> b = 168)
        \<or> (a = 172 \<and> 16 \<le> b \<and> b \<le> 31) \<or> a = 0)"
  by (auto simp: isPrivateIpv4_def elem_def js_ge_def js_le_def)

lemma unat32: "unat (w :: 32 word) < 4294967296"
  using unsigned_less [of w, where 'a = nat] by simp

lemma split16_a: "(y :: nat) = 43518 \<longleftrightarrow> y div 256 = 169 \<and> y mod 256 = 254"
proof
  assume "y = 43518" then show "y div 256 = 169 \<and> y mod 256 = 254" by simp
next
  assume h: "y div 256 = 169 \<and> y mod 256 = 254"
  have "y = y div 256 * 256 + y mod 256" by simp
  with h show "y = 43518" by simp
qed

lemma split16_b: "(y :: nat) = 49320 \<longleftrightarrow> y div 256 = 192 \<and> y mod 256 = 168"
proof
  assume "y = 49320" then show "y div 256 = 192 \<and> y mod 256 = 168" by simp
next
  assume h: "y div 256 = 192 \<and> y mod 256 = 168"
  have "y = y div 256 * 256 + y mod 256" by simp
  with h show "y = 49320" by simp
qed

lemma split12: "(y :: nat) div 16 = 2753 \<longleftrightarrow> y div 256 = 172 \<and> 16 \<le> y mod 256 \<and> y mod 256 \<le> 31"
proof -
  define q where "q = y div 16"
  have d: "y div 256 = q div 16" by (simp add: q_def div_mult2_eq [symmetric])
  have m: "y mod 256 = 16 * (q mod 16) + y mod 16"
    using mod_mult2_eq [of y 16 16] by (simp add: q_def)
  have r: "y mod 16 < 16" by simp
  have q: "q = q div 16 * 16 + q mod 16" by simp
  have q16: "q mod 16 < 16" by simp
  show ?thesis
  proof
    assume "y div 16 = 2753"
    then have "q = 2753" by (simp add: q_def)
    then have "q div 16 = 172" "q mod 16 = 1" by simp_all
    with d m r show "y div 256 = 172 \<and> 16 \<le> y mod 256 \<and> y mod 256 \<le> 31" by simp
  next
    assume h: "y div 256 = 172 \<and> 16 \<le> y mod 256 \<and> y mod 256 \<le> 31"
    then have "q div 16 = 172" using d by simp
    moreover have "q mod 16 = 1" using h m r by linarith
    ultimately have "q = 2753" using q by simp
    then show "y div 16 = 2753" by (simp add: q_def)
  qed
qed

lemma private_range_octets:
  fixes w :: ipv4
  shows "ipv4_private_range w
     = (octet w 0 = 10 \<or> octet w 0 = 127 \<or> (octet w 0 = 169 \<and> octet w 1 = 254)
        \<or> (octet w 0 = 192 \<and> octet w 1 = 168)
        \<or> (octet w 0 = 172 \<and> 16 \<le> octet w 1 \<and> octet w 1 \<le> 31) \<or> octet w 0 = 0)"
proof -
  define y where "y = unat w div 65536"
  have a: "unat w div 16777216 = y div 256" by (simp add: y_def div_mult2_eq [symmetric])
  have b: "unat w div 1048576 = y div 16"
    using div_mult2_eq [of "unat w" 65536 16, symmetric]
          div_mult2_eq [of "unat w" 1048576 16, symmetric] by (simp add: y_def) 
  have "y div 256 < 256" using unat32 [of w] unfolding a [symmetric] by simp
  then have c: "y div 256 mod 256 = y div 256" by simp
  have o0: "octet w 0 = y div 256" by (simp add: octet_def a c)
  have o1: "octet w 1 = y mod 256" by (simp add: octet_def y_def)
  have r: "ipv4_private_range w = (y div 256 = 10 \<or> y div 256 = 127 \<or> y = 43518 \<or> y = 49320
            \<or> y div 16 = 2753 \<or> y div 256 = 0)"
    by (simp add: ipv4_private_range_def in_cidr4_def a b y_def [symmetric])
  show ?thesis
    unfolding r o0 o1 split16_a split16_b split12 by (rule refl)
qed

lemma addrs_allowed_iff:
  "addrs_allowed addrs = (\<forall>ip \<in> set addrs. ip \<noteq> [] \<and> \<not> isPrivateIp ip)"
  by (induction addrs) auto

lemma isPrivateIp_ipv4: "isPrivateIp (ipv4_text w) = ipv4_private_range w"
  unfolding isPrivateIp_ipv4_text isPrivateIpv4_octets private_range_octets by (rule refl)

text \<open>
  What the check does with the classifier's answers, and what the classifier answers on
  IPv4: for a URL whose hostname resolves to a non-empty list of addresses, the check
  answers false as soon as one address is classified private.  An IPv4 address, in its
  dotted-decimal text, is classified private exactly when it lies in 10.0.0.0/8,
  127.0.0.0/8, 169.254.0.0/16, 192.168.0.0/16, 172.16.0.0/12 or 0.0.0.0/8.
\<close>

lemma host_check_rejects_classified:
  assumes "URL E urlString = Some u"
    and "dns_lookup E (hostname u) = Inr addrs"
    and "addrs \<noteq> []"
  shows "((\<exists>ip \<in> set addrs. isPrivateIp ip) \<longrightarrow> fst (isHostAllowed E urlString) = False)
       \<and> (fst (isHostAllowed E urlString) = True \<longrightarrow> (\<forall>ip \<in> set addrs. \<not> isPrivateIp ip))
       \<and> (\<forall>w. isPrivateIp (ipv4_text w) = ipv4_private_range w)
       \<and> (\<forall>w. ipv4_text w \<in> set addrs \<and> ipv4_private_range w
             \<longrightarrow> fst (isHostAllowed E urlString) = False)"
proof -
  have a: "fst (isHostAllowed E urlString) \<Longrightarrow> addrs_allowed addrs"
    using assms by (auto simp: isHostAllowed_def split: if_splits)
  have b: "\<forall>w. isPrivateIp (ipv4_text w) = ipv4_private_range w"
    by (simp add: isPrivateIp_ipv4)
  from a have c: "fst (isHostAllowed E urlString) \<Longrightarrow> \<forall>ip \<in> set addrs. \<not> isPrivateIp ip"
    by (simp add: addrs_allowed_iff)
  from b c show ?thesis by blast
qed

lemma ipv4_text_10_0_0_5: "ipv4_text 0x0A000005 = ''10.0.0.5''"
  by (simp add: ipv4_text_def octet_def dec_str.simps digit_char_def char_of_def bit_0)

lemma host_check_rejects_classified_example:
  "URL sample_env ''http://mixed.example/'' = Some \<lparr>protocol = ''http:'', hostname = ''mixed.example''\<rparr>
   \<and> dns_lookup sample_env ''mixed.example'' = Inr [''93.184.216.34'', ''10.0.0.5'']
   \<and> ipv4_private_range 0x0A000005
   \<and> isPrivateIp ''10.0.0.5''
   \<and> fst (isHostAllowed sample_env ''http://mixed.example/'') = False"
proof -
  have u: "URL sample_env ''http://mixed.example/''
             = Some \<lparr>protocol = ''http:'', hostname = ''mixed.example''\<rparr>"
    by (simp add: sample_env_def sample_URL_def)
  have d: "dns_lookup sample_env (hostname \<lparr>protocol = ''http:'', hostname = ''mixed.example''\<rparr>)
             = Inr [''93.184.216.34'', ''10.0.0.5'']"
    by (simp add: sample_env_def sample_dns_def)
  have r: "ipv4_private_range 0x0A000005"
    by (simp add: ipv4_private_range_def in_cidr4_def)
  note t = host_check_rejects_classified [OF u d]
  from t have p: "isPrivateIp (ipv4_text 0x0A000005) = ipv4_private_range 0x0A000005"
    by blast
  from t r have "fst (isHostAllowed sample_env ''http://mixed.example/'') = False"
    using ipv4_text_10_0_0_5 by (metis list.set_intros(1,2) list.distinct(1))
  with u d r p show ?thesis by (simp add: ipv4_text_10_0_0_5)
qed

section \<open>The IPv6 branch of the classifier\<close>

lemmas char_class_defs = is_digit_def is_lower_hex_def is_upper_hex_def is_hex_def is_upper_def
  is_lower_def is_zone_char_def

lemmas isIP_defs = net_isIP_def isIPv4_def isIPv6_def isIPv6_body_def v6_groups_def is_v6seg_def
  is_v4seg_def dec_val_def digit_val_def

lemma isIP_fe90: "net_isIP ''fe90::1'' = 6"
  by (simp add: isIP_defs char_class_defs)

lemma lower_fe90: "toLowerCase ''fe90::1'' = ''fe90::1''"
  by (simp add: toLowerCase_def char_class_defs)

lemma replicate_6: "replicate 6 x = [x, x, x, x, x, x]"
  by (simp add: numeral_eq_Suc)

lemma pton6_fe90: "pton6 ''fe90::1'' = Some 0xfe900000000000000000000000000001"
  by (simp add: pton6_def groups_of_def is_v6seg_def hex_val_def hex_digit_val_def char_class_defs replicate_6)

lemma range_fe90: "in_cidr6 0xfe900000000000000000000000000001 0xfe800000000000000000000000000000 10"
  by (simp add: in_cidr6_def)

text \<open>
  Claim C2 says that every address of \<^verbatim>\<open>fe80::/10\<close> is classified private.  The classifier
  compares text: the link-local test is \<^verbatim>\<open>startsWith('fe80')\<close>.  The address
  \<^verbatim>\<open>fe90::1\<close> is valid IPv6 text in lower case, lies in \<^verbatim>\<open>fe80::/10\<close>, and is not
  classified private.
\<close>

theorem link_local_not_classified:
  "net_isIP ''fe90::1'' = 6
   \<and> toLowerCase ''fe90::1'' = ''fe90::1''
   \<and> pton6 ''fe90::1'' = Some 0xfe900000000000000000000000000001
   \<and> in_cidr6 0xfe900000000000000000000000000001 0xfe800000000000000000000000000000 10
   \<and> ipv6_private_range 0xfe900000000000000000000000000001
   \<and> isPrivateIp ''fe90::1'' = False"
  by (simp add: isIP_fe90 lower_fe90 pton6_fe90 range_fe90 ipv6_private_range_def isPrivateIp_def)

text \<open>
  The unique-local test is textual as well (\<^verbatim>\<open>startsWith('fc')\<close>): \<^verbatim>\<open>fc::1\<close>, the address
  \<^verbatim>\<open>00fc::1\<close> outside \<^verbatim>\<open>fc00::/7\<close>, is classified private.
\<close>

lemma isIP_fc: "net_isIP ''fc::1'' = 6"
  by (simp add: isIP_defs char_class_defs)

lemma pton6_fc: "pton6 ''fc::1'' = Some 0x00fc0000000000000000000000000001"
  by (simp add: pton6_def groups_of_def is_v6seg_def hex_val_def hex_digit_val_def char_class_defs
      replicate_6)

lemma short_group_classified:
  "isPrivateIp ''fc::1'' \<and> \<not> ipv6_private_range 0x00fc0000000000000000000000000001"
  by (simp add: isIP_fc isPrivateIp_def toLowerCase_def char_class_defs ipv6_private_range_def
      in_cidr6_def)

section \<open>Every step only appends to the trace\<close>

lemma extends_refl: "trace c' = trace c \<Longrightarrow> extends t c c'"
  by (simp add: extends_def)

lemma extends_trans: "extends t a b \<Longrightarrow> extends t b c \<Longrightarrow> extends t a c"
  by (auto simp: extends_def)

lemma extends_emit:
  "extends t c c' \<Longrightarrow> list_all (emitted_by_step t) es \<Longrightarrow> extends t c (emit es c')"
  by (auto simp: extends_def emit_def)

lemma extends_upd:
  "extends t c c' \<Longrightarrow> extends t c (c'\<lparr>operation := x\<rparr>)"
  "extends t c c' \<Longrightarrow> extends t c (c'\<lparr>timer := y\<rparr>)"
  "extends t c c' \<Longrightarrow> extends t c (c'\<lparr>main := z\<rparr>)"
  "extends t c c' \<Longrightarrow> extends t c (c'\<lparr>sess := s\<rparr>)"
  by (simp_all add: extends_def)

lemma extends_respond: "extends t c c' \<Longrightarrow> extends t c (respond st j c')"
  unfolding respond_def
  by (intro extends_emit extends_upd) (simp_all add: emitted_by_step_def)

lemma extends_cleanup_then_respond:
  "extends t c c' \<Longrightarrow> extends t c (cleanup_then_respond st j c')"
  unfolding cleanup_then_respond_def
  by (simp add: extends_respond extends_emit extends_upd emitted_by_step_def)

lemma extends_handler_catch: "extends t c c' \<Longrightarrow> extends t c (handler_catch d m c')"
  unfolding handler_catch_def Let_def
  by (simp add: extends_cleanup_then_respond extends_emit emitted_by_step_def)

lemma extends_clearTimeout: "extends t c c' \<Longrightarrow> extends t c (clearTimeout c')"
  unfolding clearTimeout_def
  by (simp add: extends_emit extends_upd emitted_by_step_def)

lemma extends_op_fulfilled: "extends t c c' \<Longrightarrow> extends t c (op_fulfilled j c')"
  unfolding op_fulfilled_def Let_def
  by (simp add: extends_respond extends_clearTimeout extends_upd)

lemma extends_op_rejected: "extends t c c' \<Longrightarrow> extends t c (op_rejected d m c')"
  unfolding op_rejected_def Let_def
  by (simp add: extends_handler_catch extends_clearTimeout extends_upd)

lemma extends_op_cleanup: "extends t c c' \<Longrightarrow> extends t c (op_cleanup j w c')"
  unfolding op_cleanup_def
  by (simp add: extends_op_fulfilled extends_emit extends_upd emitted_by_step_def)

lemma extends_after_navigation: "extends t c c' \<Longrightarrow> extends t c (after_navigation d c')"
  unfolding after_navigation_def
  by (simp add: extends_emit extends_upd emitted_by_step_def)

lemma extends_loop_head: "extends t c c' \<Longrightarrow> extends t c (loop_head t d a c')"
  unfolding loop_head_def
  by (simp add: extends_after_navigation extends_emit extends_upd emitted_by_step_def)

lemmas extends_basic = extends_emit extends_upd extends_respond extends_cleanup_then_respond
  extends_handler_catch extends_clearTimeout extends_op_fulfilled extends_op_rejected
  extends_op_cleanup extends_after_navigation extends_loop_head

lemma extends_op_step: "extends t c c' \<Longrightarrow> extends t c (op_step E t d oc w c')"
  by (cases "(E, t, d, oc, w, c')" rule: op_step.cases)
     (auto simp: extends_basic emitted_by_step_def TIMEOUT_def split: sum.splits)

lemma extends_reject_timeout: "extends t c c' \<Longrightarrow> extends t c (reject_timeout d c')"
  unfolding reject_timeout_def Let_def
  by (simp add: extends_basic emitted_by_step_def)

lemma extends_timer_fires: "extends t c c' \<Longrightarrow> extends t c (timer_fires d c')"
  unfolding timer_fires_def Let_def
  by (simp add: extends_basic extends_reject_timeout emitted_by_step_def)

lemma extends_timer_close_settles:
  "extends t c c' \<Longrightarrow> extends t c (timer_close_settles d oc c')"
  unfolding timer_close_settles_def
  by (simp add: extends_basic extends_reject_timeout emitted_by_step_def split: sum.splits)

lemma extends_catch_close_settles: "extends t c c' \<Longrightarrow> extends t c (catch_close_settles oc c')"
  unfolding catch_close_settles_def
  by (simp add: extends_basic split: sum.splits main_state.splits)

lemma extends_step: "extends t c (step E t d ev c)"
  unfolding step_def
  by (cases ev)
     (simp_all add: extends_refl extends_op_step extends_timer_fires extends_timer_close_settles
        extends_catch_close_settles)

lemma extends_run: "extends t c (run E t d evs c)"
proof (induction evs arbitrary: c)
  case Nil
  show ?case by (simp add: run_def extends_refl)
next
  case (Cons ev evs)
  have "extends t c (step E t d ev c)" by (rule extends_step)
  moreover have "extends t (step E t d ev c) (run E t d evs (step E t d ev c))" by (rule Cons.IH)
  ultimately have "extends t c (run E t d evs (step E t d ev c))" by (rule extends_trans)
  then show ?case by (simp add: run_def)
qed

lemma isHostAllowed_True: "isHostAllowed E t = (True, l) \<Longrightarrow> \<exists>h. l = [DnsLookup h]"
  by (auto simp: isHostAllowed_def split: option.splits if_splits sum.splits)

lemma isHostAllowed_lookups:
  "snd (isHostAllowed E t) = [] \<or> (\<exists>h. snd (isHostAllowed E t) = [DnsLookup h])"
  by (auto simp: isHostAllowed_def split: option.splits if_splits sum.splits)

lemma run_trace:
  "\<exists>es. trace (run E t d evs (start l)) = l @ [Launch, SetTimer TIMEOUT] @ es
        \<and> list_all (emitted_by_step t) es"
  using extends_run [of t "start l" E d evs] by (auto simp: extends_def start_def)

lemma handler_trace_cases:
  "(\<exists>st j. snd (handler E req evs) = [SetHeader ''Allow'' ''GET'', Respond st j])
   \<or> (\<exists>l st j. snd (handler E req evs) = l @ [Respond st j] \<and> (l = [] \<or> (\<exists>h. l = [DnsLookup h])))
   \<or> (\<exists>t h es. first_value (query_url req) = Some t \<and> isHostAllowed E t = (True, [DnsLookup h])
         \<and> snd (handler E req evs) = [DnsLookup h, Launch, SetTimer TIMEOUT] @ es
         \<and> list_all (emitted_by_step t) es)"
proof (cases "http_method req \<noteq> ''GET''")
  case True
  then show ?thesis by (simp add: handler_def)
next
  case get: False
  show ?thesis
  proof (cases "first_value (query_url req)")
    case None
    with get show ?thesis by (simp add: handler_def)
  next
    case (Some t)
    show ?thesis
    proof (cases "t = [] \<or> \<not> isValidHttpUrl E t")
      case True
      with get Some show ?thesis by (auto simp add: handler_def)
    next
      case valid: False
      obtain a l where al: "isHostAllowed E t = (a, l)" by (cases "isHostAllowed E t")
      show ?thesis
      proof (cases a)
        case False
        have "l = [] \<or> (\<exists>h. l = [DnsLookup h])" using isHostAllowed_lookups [of E t] al by simp
        with get Some valid al False show ?thesis by (auto simp add: handler_def)
      next
        case True
        with al have "isHostAllowed E t = (True, l)" by simp
        then obtain h where h: "l = [DnsLookup h]" using isHostAllowed_True by blast
        obtain es where es: "trace (run E t (debug_flag req) evs (start l)) = l @ [Launch, SetTimer TIMEOUT] @ es"
            "list_all (emitted_by_step t) es"
          using run_trace by blast
        have "snd (handler E req evs) = [DnsLookup h, Launch, SetTimer TIMEOUT] @ es"
          using get Some valid al True h es by (simp add: handler_def Let_def)
        with Some al True h es(2)
        have "\<exists>t h es. first_value (query_url req) = Some t \<and> isHostAllowed E t = (True, [DnsLookup h])
         \<and> snd (handler E req evs) = [DnsLookup h, Launch, SetTimer TIMEOUT] @ es
         \<and> list_all (emitted_by_step t) es"
          by (intro exI [of _ t] exI [of _ h] exI [of _ es]) simp
        then show ?thesis by (intro disjI2)
      qed
    qed
  qed
qed

lemma emitted_not_Launch: "list_all (emitted_by_step t) es \<Longrightarrow> Launch \<notin> set es"
  by (auto simp: list_all_iff emitted_by_step_def)

lemma emitted_timeouts:
  assumes "list_all (emitted_by_step t) es"
  shows "SetTimer n \<notin> set es"
    and "SetDefaultNavigationTimeout n \<in> set es \<Longrightarrow> n = 18000"
    and "SetDefaultTimeout n \<in> set es \<Longrightarrow> n = 18000"
    and "Sleep n \<in> set es \<Longrightarrow> n = 250"
  using assms by (auto simp: list_all_iff emitted_by_step_def)

lemmas machine_defs = run_def step_def finished_def start_def emit_def respond_def
  cleanup_then_respond_def handler_catch_def clearTimeout_def op_fulfilled_def op_rejected_def
  op_cleanup_def after_navigation_def loop_head_def reject_timeout_def timer_fires_def
  timer_close_settles_def catch_close_settles_def cleanup_guard_def cleanup_after_close_def
  close_awaited_def maxAttempts_def TIMEOUT_def debug_result_def summary_result_def
  no_executable_def playwright_hint_def

lemma public_address: "isPrivateIp ''93.184.216.34'' = False"
  by (simp add: isPrivateIp_def isIP_defs char_class_defs Number_def isPrivateIpv4_def elem_def
      js_ge_def js_le_def)

lemma sample_allowed:
  "isHostAllowed sample_env ''https://example.com'' = (True, [DnsLookup ''example.com''])"
  by (simp add: isHostAllowed_def sample_env_def sample_URL_def sample_dns_def public_address)

lemma sample_valid: "isValidHttpUrl sample_env ''https://example.com''"
  by (simp add: isValidHttpUrl_def sample_env_def sample_URL_def)

lemma sample_handler:
  "handler sample_env (get_request ''https://example.com'') evs
     = (let c = run sample_env ''https://example.com'' False evs (start [DnsLookup ''example.com''])
        in (case main c of Responded st j \<Rightarrow> Some (st, j) | _ \<Rightarrow> None, trace c))"
  by (simp add: handler_def get_request_def first_value_def debug_flag_def sample_valid
      sample_allowed)

section \<open>A host with a link-local address\<close>

lemma fe90_unclassified: "isPrivateIp ''fe90::1'' = False"
  by (simp add: isPrivateIp_def isIP_fe90 lower_fe90)

text \<open>
  Claim C1 says that a host is rejected as soon as one of its resolved addresses is
  private or internal (private, loopback or link-local), even if the others are public.
  A host that resolves to the public address \<^verbatim>\<open>93.184.216.34\<close> and to \<^verbatim>\<open>fe90::1\<close>, which
  lies in the link-local block \<^verbatim>\<open>fe80::/10\<close>, is allowed: the classifier's link-local
  test is the text prefix \<^verbatim>\<open>fe80\<close>, so the loop over the addresses finds nothing private,
  the check answers true and the handler goes on to launch the browser.
\<close>

theorem link_local_host_allowed:
  "dns_lookup sample_env ''linklocal.example'' = Inr [''93.184.216.34'', ''fe90::1'']
   \<and> pton6 ''fe90::1'' = Some 0xfe900000000000000000000000000001
   \<and> ipv6_private_range 0xfe900000000000000000000000000001
   \<and> isHostAllowed sample_env ''http://linklocal.example/''
       = (True, [DnsLookup ''linklocal.example''])
   \<and> handler sample_env (get_request ''http://linklocal.example/'') []
       = (None, [DnsLookup ''linklocal.example'', Launch, SetTimer 20000])"
proof -
  have d: "dns_lookup sample_env ''linklocal.example'' = Inr [''93.184.216.34'', ''fe90::1'']"
    by (simp add: sample_env_def sample_dns_def)
  have r: "ipv6_private_range 0xfe900000000000000000000000000001"
    by (simp add: ipv6_private_range_def range_fe90)
  have a: "isHostAllowed sample_env ''http://linklocal.example/''
       = (True, [DnsLookup ''linklocal.example''])"
    by (simp add: isHostAllowed_def sample_env_def sample_URL_def sample_dns_def public_address
        fe90_unclassified)
  have v: "isValidHttpUrl sample_env ''http://linklocal.example/''"
    by (simp add: isValidHttpUrl_def sample_env_def sample_URL_def)
  have h: "handler sample_env (get_request ''http://linklocal.example/'') []
       = (None, [DnsLookup ''linklocal.example'', Launch, SetTimer 20000])"
    by (simp add: handler_def get_request_def first_value_def debug_flag_def v a run_def
        start_def TIMEOUT_def)
  from d r a h show ?thesis by (simp add: pton6_fe90)
qed

section \<open>Order of the host check and the browser launch\<close>

text \<open>
  Claim C5.  For a GET request whose \<^verbatim>\<open>url\<close> does not parse or has a scheme other than
  http and https, the handler answers 400 \<^verbatim>\<open>Invalid URL\<close> and that response is its only
  effect: no DNS lookup, no browser launch.  In every run, if a browser is launched at
  all, the host check has answered true before: the trace begins with the check's lookup,
  the launch follows it, and there is no other launch.
\<close>

theorem invalid_url_and_ordering:
  "(http_method req = ''GET'' \<and> first_value (query_url req) = Some target
      \<and> (URL E target = None
          \<or> (\<exists>u. URL E target = Some u \<and> protocol u \<noteq> ''http:'' \<and> protocol u \<noteq> ''https:''))
    \<longrightarrow> handler E req evs
          = (Some (400, ErrorJson ''Invalid URL''), [Respond 400 (ErrorJson ''Invalid URL'')]))
   \<and> (Launch \<in> set (snd (handler E req evs))
    \<longrightarrow> (\<exists>t h rest. first_value (query_url req) = Some t
            \<and> isHostAllowed E t = (True, [DnsLookup h])
            \<and> snd (handler E req evs) = DnsLookup h # Launch # rest
            \<and> Launch \<notin> set rest))"
proof (intro conjI impI)
  assume "http_method req = ''GET'' \<and> first_value (query_url req) = Some target
      \<and> (URL E target = None
          \<or> (\<exists>u. URL E target = Some u \<and> protocol u \<noteq> ''http:'' \<and> protocol u \<noteq> ''https:''))"
  then show "handler E req evs
          = (Some (400, ErrorJson ''Invalid URL''), [Respond 400 (ErrorJson ''Invalid URL'')])"
    by (auto simp: handler_def isValidHttpUrl_def)
next
  assume l: "Launch \<in> set (snd (handler E req evs))"
  from handler_trace_cases [of E req evs] l
  obtain t h es where *: "first_value (query_url req) = Some t"
      "isHostAllowed E t = (True, [DnsLookup h])"
      "snd (handler E req evs) = [DnsLookup h, Launch, SetTimer TIMEOUT] @ es"
      "list_all (emitted_by_step t) es"
    by auto
  from *(4) have "Launch \<notin> set (SetTimer TIMEOUT # es)" by (simp add: emitted_not_Launch)
  with * show "\<exists>t h rest. first_value (query_url req) = Some t
            \<and> isHostAllowed E t = (True, [DnsLookup h])
            \<and> snd (handler E req evs) = DnsLookup h # Launch # rest
            \<and> Launch \<notin> set rest"
    by auto
qed

theorem invalid_url_and_ordering_witness:
  "handler sample_env (get_request ''ftp://example.com/'') [TimerFires]
     = (Some (400, ErrorJson ''Invalid URL''), [Respond 400 (ErrorJson ''Invalid URL'')])
   \<and> handler sample_env (get_request ''not a url'') [TimerFires]
     = (Some (400, ErrorJson ''Invalid URL''), [Respond 400 (ErrorJson ''Invalid URL'')])
   \<and> snd (handler sample_env (get_request ''https://example.com'') [OpSettles Fulfilled])
     = [DnsLookup ''example.com'', Launch, SetTimer 20000, NewContext DEFAULT_USER_AGENT]"
proof -
  have a: "handler sample_env (get_request ''ftp://example.com/'') [TimerFires]
     = (Some (400, ErrorJson ''Invalid URL''), [Respond 400 (ErrorJson ''Invalid URL'')])"
    using invalid_url_and_ordering
      [of "get_request ''ftp://example.com/''" "''ftp://example.com/''" sample_env "[TimerFires]"]
    by (simp add: get_request_def first_value_def sample_env_def sample_URL_def)
  have b: "handler sample_env (get_request ''not a url'') [TimerFires]
     = (Some (400, ErrorJson ''Invalid URL''), [Respond 400 (ErrorJson ''Invalid URL'')])"
    using invalid_url_and_ordering
      [of "get_request ''not a url''" "''not a url''" sample_env "[TimerFires]"]
    by (simp add: get_request_def first_value_def sample_env_def sample_URL_def)
  have c: "snd (handler sample_env (get_request ''https://example.com'') [OpSettles Fulfilled])
     = [DnsLookup ''example.com'', Launch, SetTimer 20000, NewContext DEFAULT_USER_AGENT]"
    by (simp add: sample_handler machine_defs)
  from a b c show ?thesis by simp
qed

section \<open>The two time limits\<close>

text \<open>
  Claim C8.  The global budget is 20000 ms and the page's navigation and action timeouts
  are the budget minus 2000 ms: in every run the timer of the deadline race is set to
  20000 and the page timeouts, whenever they are installed, to 18000; they are installed
  right after the page has been opened, before the first navigation.
\<close>

theorem page_timeouts:
  "TIMEOUT = 20000 \<and> TIMEOUT - 2000 = 18000
   \<and> (\<forall>n. SetTimer n \<in> set (snd (handler E req evs)) \<longrightarrow> n = 20000)
   \<and> (\<forall>n. SetDefaultNavigationTimeout n \<in> set (snd (handler E req evs)) \<longrightarrow> n = 18000)
   \<and> (\<forall>n. SetDefaultTimeout n \<in> set (snd (handler E req evs)) \<longrightarrow> n = 18000)
   \<and> (operation c = AwaitNewPage \<and> \<not> finished c \<longrightarrow>
        trace (step E target debug (OpSettles Fulfilled) c)
          = trace c @ [SetDefaultNavigationTimeout (TIMEOUT - 2000),
                       SetDefaultTimeout (TIMEOUT - 2000), Goto target])
   \<and> trace (start lookups) = lookups @ [Launch, SetTimer TIMEOUT]"
proof -
  have a: "\<And>n. SetTimer n \<in> set (snd (handler E req evs)) \<Longrightarrow> n = 20000"
    using handler_trace_cases [of E req evs] by (auto simp: TIMEOUT_def dest: emitted_timeouts)
  have b: "\<And>n. SetDefaultNavigationTimeout n \<in> set (snd (handler E req evs)) \<Longrightarrow> n = 18000"
    using handler_trace_cases [of E req evs] by (auto dest: emitted_timeouts)
  have c: "\<And>n. SetDefaultTimeout n \<in> set (snd (handler E req evs)) \<Longrightarrow> n = 18000"
    using handler_trace_cases [of E req evs] by (auto dest: emitted_timeouts)
  have d: "operation c = AwaitNewPage \<and> \<not> finished c \<longrightarrow>
        trace (step E target debug (OpSettles Fulfilled) c)
          = trace c @ [SetDefaultNavigationTimeout (TIMEOUT - 2000),
                       SetDefaultTimeout (TIMEOUT - 2000), Goto target]"
    by (simp add: step_def loop_head_def maxAttempts_def emit_def)
  from a b c d show ?thesis by (simp add: TIMEOUT_def start_def)
qed

theorem page_timeouts_witness:
  "snd (handler sample_env (get_request ''https://example.com'')
          [OpSettles Fulfilled, OpSettles Fulfilled, OpSettles Fulfilled])
     = [DnsLookup ''example.com'', Launch, SetTimer 20000, NewContext DEFAULT_USER_AGENT, NewPage,
        SetDefaultNavigationTimeout 18000, SetDefaultTimeout 18000, Goto ''https://example.com'']
   \<and> operation ((start []) \<lparr>operation := AwaitNewPage\<rparr>) = AwaitNewPage
   \<and> \<not> finished ((start []) \<lparr>operation := AwaitNewPage\<rparr>)
   \<and> trace (step sample_env ''https://example.com'' False (OpSettles Fulfilled)
               ((start []) \<lparr>operation := AwaitNewPage\<rparr>))
       = [Launch, SetTimer 20000, SetDefaultNavigationTimeout 18000, SetDefaultTimeout 18000,
          Goto ''https://example.com'']"
proof -
  have r: "snd (handler sample_env (get_request ''https://example.com'')
          [OpSettles Fulfilled, OpSettles Fulfilled, OpSettles Fulfilled])
     = [DnsLookup ''example.com'', Launch, SetTimer 20000, NewContext DEFAULT_USER_AGENT, NewPage,
        SetDefaultNavigationTimeout 18000, SetDefaultTimeout 18000, Goto ''https://example.com'']"
    by (simp add: sample_handler machine_defs)
  have f: "\<not> finished ((start []) \<lparr>operation := AwaitNewPage\<rparr>)"
    by (simp add: finished_def start_def)
  from page_timeouts [of sample_env "get_request ''https://example.com''"
      "[OpSettles Fulfilled, OpSettles Fulfilled, OpSettles Fulfilled]"
      "(start []) \<lparr>operation := AwaitNewPage\<rparr>" "''https://example.com''" False "[]"] r f
  show ?thesis by (simp add: start_def)
qed

section \<open>The navigation loop\<close>

lemma navigations_append: "navigations (xs @ ys) = navigations xs + navigations ys"
  by (simp add: navigations_def)

lemma quiet_refl: "quiet c c"
  by (simp add: quiet_def)

lemma quiet_emit: "quiet c c' \<Longrightarrow> navigations es = 0 \<Longrightarrow> quiet c (emit es c')"
  by (simp add: quiet_def emit_def navigations_append)

lemma quiet_upd:
  "quiet c c' \<Longrightarrow> quiet c (c'\<lparr>timer := y\<rparr>)"
  "quiet c c' \<Longrightarrow> quiet c (c'\<lparr>main := z\<rparr>)"
  "quiet c c' \<Longrightarrow> quiet c (c'\<lparr>sess := s\<rparr>)"
  by (simp_all add: quiet_def)

lemma quiet_respond: "quiet c c' \<Longrightarrow> quiet c (respond st j c')"
  unfolding respond_def by (simp add: quiet_emit quiet_upd navigations_def)

lemma quiet_cleanup_then_respond: "quiet c c' \<Longrightarrow> quiet c (cleanup_then_respond st j c')"
  unfolding cleanup_then_respond_def
  by (simp add: quiet_respond quiet_emit quiet_upd navigations_def)

lemma quiet_handler_catch: "quiet c c' \<Longrightarrow> quiet c (handler_catch d m c')"
  unfolding handler_catch_def Let_def
  by (simp add: quiet_cleanup_then_respond quiet_emit navigations_def)

lemma quiet_clearTimeout: "quiet c c' \<Longrightarrow> quiet c (clearTimeout c')"
  unfolding clearTimeout_def by (simp add: quiet_emit quiet_upd navigations_def)

lemma quiet_reject_timeout: "quiet c c' \<Longrightarrow> quiet c (reject_timeout d c')"
  unfolding reject_timeout_def Let_def
  by (simp add: quiet_handler_catch quiet_clearTimeout quiet_emit navigations_def)

lemma quiet_timer_fires: "quiet c c' \<Longrightarrow> quiet c (timer_fires d c')"
  unfolding timer_fires_def Let_def
  by (simp add: quiet_reject_timeout quiet_emit quiet_upd navigations_def)

lemma quiet_timer_close_settles: "quiet c c' \<Longrightarrow> quiet c (timer_close_settles d oc c')"
  unfolding timer_close_settles_def
  by (simp add: quiet_reject_timeout quiet_emit quiet_upd navigations_def split: sum.splits)

lemma quiet_catch_close_settles: "quiet c c' \<Longrightarrow> quiet c (catch_close_settles oc c')"
  unfolding catch_close_settles_def
  by (simp add: quiet_respond quiet_upd split: sum.splits main_state.splits)

lemma nav_inv_quiet: "nav_inv c \<Longrightarrow> quiet c c' \<Longrightarrow> nav_inv c'"
  by (auto simp: nav_inv_def quiet_def split: op_state.splits)

lemma ended_quiet: "ended c c' \<Longrightarrow> quiet c' c'' \<Longrightarrow> ended c c''"
  by (simp add: ended_def quiet_def)

lemma ended_op_fulfilled: "navigations (trace c') = navigations (trace c) \<Longrightarrow> ended c (op_fulfilled j c')"
proof -
  assume a: "navigations (trace c') = navigations (trace c)"
  have e: "ended c (c'\<lparr>operation := OpDone\<rparr>)" using a by (simp add: ended_def)
  show ?thesis unfolding op_fulfilled_def Let_def
    using e by (auto intro: ended_quiet quiet_respond quiet_clearTimeout quiet_refl)
qed

lemma ended_op_rejected: "navigations (trace c') = navigations (trace c) \<Longrightarrow> ended c (op_rejected d m c')"
proof -
  assume a: "navigations (trace c') = navigations (trace c)"
  have e: "ended c (c'\<lparr>operation := OpDone\<rparr>)" using a by (simp add: ended_def)
  show ?thesis unfolding op_rejected_def Let_def
    using e by (auto intro: ended_quiet quiet_handler_catch quiet_clearTimeout quiet_refl)
qed

lemma nav_inv_bound: "nav_inv c \<Longrightarrow> navigations (trace c) \<le> 2"
  by (auto simp: nav_inv_def split: op_state.splits)

lemma nav_inv_ended: "nav_inv c \<Longrightarrow> ended c c' \<Longrightarrow> nav_inv c'"
  using nav_inv_bound [of c] by (auto simp: nav_inv_def ended_def)

lemma nav_inv_fulfilled:
  "nav_inv c \<Longrightarrow> navigations (trace c') = navigations (trace c) \<Longrightarrow> nav_inv (op_fulfilled j c')"
  by (rule nav_inv_ended [OF _ ended_op_fulfilled])

lemma nav_inv_rejected:
  "nav_inv c \<Longrightarrow> navigations (trace c') = navigations (trace c) \<Longrightarrow> nav_inv (op_rejected d m c')"
  by (rule nav_inv_ended [OF _ ended_op_rejected])

lemma nav_inv_late:
  assumes "nav_inv c" and "navigations es = 0"
    and "w = AwaitContent \<or> w = AwaitEvaluate \<or> w = AwaitCloseDebug \<or> w = AwaitCloseSummary"
  shows "nav_inv (emit es (c\<lparr>operation := w\<rparr>))"
proof -
  have "navigations (trace (emit es (c\<lparr>operation := w\<rparr>))) \<le> 2"
    using nav_inv_bound [OF assms(1)] assms(2) by (simp add: emit_def navigations_append)
  moreover have "operation (emit es (c\<lparr>operation := w\<rparr>)) = w" by (simp add: emit_def)
  ultimately show ?thesis using assms(3) by (auto simp: nav_inv_def)
qed

lemma nav_inv_after_navigation: "nav_inv c \<Longrightarrow> nav_inv (after_navigation d c)"
  unfolding after_navigation_def by (simp add: nav_inv_late navigations_def)

lemma nav_inv_op_cleanup:
  "nav_inv c \<Longrightarrow> w = AwaitCloseDebug \<or> w = AwaitCloseSummary \<Longrightarrow> nav_inv (op_cleanup j w c)"
  unfolding op_cleanup_def by (auto simp: nav_inv_late nav_inv_fulfilled navigations_def)

lemma nav_inv_loop_head:
  assumes "navigations (trace c) + 1 = a" and "a \<le> 2"
  shows "nav_inv (loop_head t d a c)"
  using assms by (simp add: loop_head_def maxAttempts_def nav_inv_def emit_def navigations_def)

lemma nav_inv_op_step:
  assumes inv: "nav_inv c" and w: "operation c = w"
  shows "nav_inv (op_step E t d oc w c)"
proof (cases w)
  case AwaitLaunch
  with inv w have "navigations (trace c) = 0" by (simp add: nav_inv_def)
  then have "nav_inv (emit [NewContext DEFAULT_USER_AGENT]
       (c\<lparr>sess := (sess c)\<lparr>browser := Some Chromium\<rparr>, operation := AwaitNewContext\<rparr>))"
    by (simp add: nav_inv_def emit_def navigations_def)
  with AwaitLaunch inv show ?thesis by (cases oc) (simp_all add: nav_inv_rejected)
next
  case AwaitNewContext
  with inv w have "navigations (trace c) = 0" by (simp add: nav_inv_def)
  then have "nav_inv (emit [NewPage] (c\<lparr>operation := AwaitNewPage\<rparr>))"
    by (simp add: nav_inv_def emit_def navigations_def)
  with AwaitNewContext inv show ?thesis by (cases oc) (simp_all add: nav_inv_rejected)
next
  case AwaitNewPage
  with inv w have "navigations (trace c) = 0" by (simp add: nav_inv_def)
  then have "nav_inv (loop_head t d 1
       (emit [SetDefaultNavigationTimeout (TIMEOUT - 2000), SetDefaultTimeout (TIMEOUT - 2000)] c))"
    by (intro nav_inv_loop_head) (simp_all add: emit_def navigations_def)
  with AwaitNewPage inv show ?thesis by (cases oc) (simp_all add: nav_inv_rejected)
next
  case (AwaitGoto a)
  with inv w have a: "navigations (trace c) = a" "a \<le> 2" by (simp_all add: nav_inv_def)
  show ?thesis
  proof (cases oc)
    case Fulfilled
    with AwaitGoto inv show ?thesis by (simp add: nav_inv_after_navigation)
  next
    case (Rejected err)
    have "a \<noteq> 2 \<Longrightarrow> nav_inv (emit [Sleep 250] (c\<lparr>operation := AwaitSleep a\<rparr>))"
      using a by (simp add: nav_inv_def emit_def navigations_def)
    with Rejected AwaitGoto inv show ?thesis
      by (simp add: nav_inv_rejected maxAttempts_def)
  qed
next
  case (AwaitSleep a)
  with inv w have "navigations (trace c) = a" "a < 2" by (simp_all add: nav_inv_def)
  then have "nav_inv (loop_head t d (a + 1) c)" by (intro nav_inv_loop_head) simp_all
  with AwaitSleep show ?thesis by simp
next
  case AwaitContent
  with inv show ?thesis by (cases oc) (simp_all add: nav_inv_rejected nav_inv_op_cleanup)
next
  case AwaitCloseDebug
  with inv show ?thesis
    by (simp add: nav_inv_rejected nav_inv_fulfilled split: sum.splits)
next
  case AwaitEvaluate
  with inv show ?thesis by (cases oc) (simp_all add: nav_inv_rejected nav_inv_op_cleanup)
next
  case AwaitCloseSummary
  with inv show ?thesis
    by (simp add: nav_inv_rejected nav_inv_fulfilled split: sum.splits)
next
  case OpDone
  with inv show ?thesis by simp
qed

lemma nav_inv_step: "nav_inv c \<Longrightarrow> nav_inv (step E t d ev c)"
  unfolding step_def
  by (cases ev)
     (auto simp: nav_inv_op_step
        intro: nav_inv_quiet quiet_timer_fires quiet_timer_close_settles quiet_catch_close_settles
          quiet_refl)

lemma nav_inv_run: "nav_inv c \<Longrightarrow> nav_inv (run E t d evs c)"
  unfolding run_def by (induction evs arbitrary: c) (simp_all add: nav_inv_step)

lemma nav_inv_start: "navigations l = 0 \<Longrightarrow> nav_inv (start l)"
  by (simp add: nav_inv_def start_def navigations_def)

lemmas control_defs = same_control_def step_def finished_def emit_def respond_def
  cleanup_then_respond_def handler_catch_def clearTimeout_def op_fulfilled_def op_rejected_def
  op_cleanup_def after_navigation_def loop_head_def reject_timeout_def timer_fires_def
  timer_close_settles_def catch_close_settles_def cleanup_after_close_def
  close_awaited_def Let_def

lemma same_control_op_step:
  "same_control c c' \<Longrightarrow> same_control (op_step E t d oc w c) (op_step E t d oc w c')"
  by (cases w; cases oc) (simp_all add: control_defs)

lemma same_control_step:
  "same_control c c' \<Longrightarrow> same_control (step E t d ev c) (step E t d ev c')"
proof (cases ev)
  case (OpSettles oc)
  assume s: "same_control c c'"
  then have "operation c = operation c'" "finished c = finished c'"
    by (simp_all add: same_control_def finished_def)
  with s OpSettles show ?thesis
    using same_control_op_step [of c c' E t d oc "operation c"] by (simp add: step_def)
next
  case TimerFires
  assume "same_control c c'"
  with TimerFires show ?thesis by (simp add: control_defs)
next
  case (TimerCloseSettles oc)
  assume "same_control c c'"
  with TimerCloseSettles show ?thesis by (cases oc) (simp_all add: control_defs)
next
  case (CatchCloseSettles oc)
  assume "same_control c c'"
  with CatchCloseSettles show ?thesis
    by (cases oc; cases "main c'") (simp_all add: control_defs)
qed

lemma same_control_run:
  "same_control c c' \<Longrightarrow> same_control (run E t d evs c) (run E t d evs c')"
  unfolding run_def by (induction evs arbitrary: c c') (simp_all add: same_control_step)

lemma handler_cases:
  "(\<exists>st j. snd (handler E req evs) = [SetHeader ''Allow'' ''GET'', Respond st j])
   \<or> (\<exists>st j. snd (handler E req evs) = [Respond st j])
   \<or> (\<exists>h st j. snd (handler E req evs) = [DnsLookup h, Respond st j])
   \<or> (\<exists>t h. first_value (query_url req) = Some t \<and> isHostAllowed E t = (True, [DnsLookup h])
         \<and> snd (handler E req evs)
             = trace (run E t (debug_flag req) evs (start [DnsLookup h])))"
proof (cases "http_method req \<noteq> ''GET''")
  case True
  then show ?thesis by (simp add: handler_def)
next
  case get: False
  show ?thesis
  proof (cases "first_value (query_url req)")
    case None
    with get show ?thesis by (simp add: handler_def)
  next
    case (Some t)
    show ?thesis
    proof (cases "t = [] \<or> \<not> isValidHttpUrl E t")
      case True
      with get Some show ?thesis by (auto simp add: handler_def)
    next
      case valid: False
      obtain a l where al: "isHostAllowed E t = (a, l)" by (cases "isHostAllowed E t")
      show ?thesis
      proof (cases a)
        case False
        have "l = [] \<or> (\<exists>h. l = [DnsLookup h])" using isHostAllowed_lookups [of E t] al by simp
        with get Some valid al False show ?thesis by (auto simp add: handler_def)
      next
        case True
        with al have "isHostAllowed E t = (True, l)" by simp
        then obtain h where h: "l = [DnsLookup h]" using isHostAllowed_True by blast
        have "snd (handler E req evs) = trace (run E t (debug_flag req) evs (start [DnsLookup h]))"
          using get Some valid al True h by (simp add: handler_def Let_def)
        with Some al True h
        have "\<exists>t h. first_value (query_url req) = Some t \<and> isHostAllowed E t = (True, [DnsLookup h])
         \<and> snd (handler E req evs)
             = trace (run E t (debug_flag req) evs (start [DnsLookup h]))"
          by (intro exI [of _ t] exI [of _ h]) simp
        then show ?thesis by (intro disjI2)
      qed
    qed
  qed
qed

lemma navigations_simple:
  "navigations [DnsLookup h] = 0"
  "navigations [Respond st j] = 0"
  "navigations [DnsLookup h, Respond st j] = 0"
  "navigations [SetHeader k v, Respond st j] = 0"
  by (simp_all add: navigations_def)

lemma handler_navigations: "navigations (snd (handler E req evs)) \<le> 2"
proof -
  have r: "\<And>t d h. navigations (trace (run E t d evs (start [DnsLookup h]))) \<le> 2"
    by (intro nav_inv_bound nav_inv_run nav_inv_start navigations_simple)
  from handler_cases [of E req evs] show ?thesis
    by (auto simp: navigations_simple r)
qed

lemma sample_page_evaluate: "page_evaluate sample_env = (Some ''A'', Some ''B'', Some ''C'')"
  by (simp add: sample_env_def)

text \<open>
  Claim C6.  In every run \<^verbatim>\<open>page.goto\<close> is called at most twice, and every wait between
  attempts is 250 ms.  When the first attempt fails the operation waits 250 ms and
  navigates once more; from there on a successful retry leaves the handler in the same
  state (operation, timer, session, pending or sent response) as a first attempt that
  succeeded, whatever completions follow.  When the second attempt fails the error is
  rethrown: the handler's \<^verbatim>\<open>catch\<close> block receives that very error, logs it and, in debug
  mode, returns its message as the details of the 500 response.
\<close>

theorem navigation_retry:
  "navigations (snd (handler E req evs)) \<le> 2
   \<and> (\<forall>n. Sleep n \<in> set (snd (handler E req evs)) \<longrightarrow> n = 250)
   \<and> (operation c = AwaitGoto 1 \<and> \<not> finished c \<longrightarrow>
        trace (step E t d (OpSettles (Rejected err)) c) = trace c @ [Sleep 250]
        \<and> operation (step E t d (OpSettles (Rejected err)) c) = AwaitSleep 1
        \<and> trace (step E t d (OpSettles oc) (step E t d (OpSettles (Rejected err)) c))
            = trace c @ [Sleep 250, Goto t]
        \<and> operation (step E t d (OpSettles oc) (step E t d (OpSettles (Rejected err)) c))
            = AwaitGoto 2
        \<and> same_control
             (run E t d (OpSettles (Rejected err) # OpSettles oc # OpSettles Fulfilled # rest) c)
             (run E t d (OpSettles Fulfilled # rest) c))
   \<and> (operation c2 = AwaitGoto 2 \<and> main c2 = Racing \<longrightarrow>
        step E t d (OpSettles (Rejected err)) c2
          = handler_catch d err (clearTimeout (c2\<lparr>operation := OpDone\<rparr>))
        \<and> ConsoleError err \<in> set (trace (step E t d (OpSettles (Rejected err)) c2))
        \<and> (d \<and> \<not> js_includes err no_executable \<and> \<not> js_includes err ''download new browsers''
             \<and> err \<noteq> ''Timeout'' \<longrightarrow>
             main (step E t d (OpSettles (Rejected err)) c2)
               = CatchAwaitsClose 500 (ErrorDetailsJson ''Failed to scrape page'' err)
             \<or> main (step E t d (OpSettles (Rejected err)) c2)
               = Responded 500 (ErrorDetailsJson ''Failed to scrape page'' err)))"
proof -
  have a: "navigations (snd (handler E req evs)) \<le> 2" by (rule handler_navigations)
  have b: "\<forall>n. Sleep n \<in> set (snd (handler E req evs)) \<longrightarrow> n = 250"
    using handler_trace_cases [of E req evs] by (auto dest: emitted_timeouts)
  have c: "operation c = AwaitGoto 1 \<and> \<not> finished c \<longrightarrow>
        trace (step E t d (OpSettles (Rejected err)) c) = trace c @ [Sleep 250]
        \<and> operation (step E t d (OpSettles (Rejected err)) c) = AwaitSleep 1
        \<and> trace (step E t d (OpSettles oc) (step E t d (OpSettles (Rejected err)) c))
            = trace c @ [Sleep 250, Goto t]
        \<and> operation (step E t d (OpSettles oc) (step E t d (OpSettles (Rejected err)) c))
            = AwaitGoto 2"
    by (simp add: step_def finished_def maxAttempts_def emit_def loop_head_def)
  have s: "operation c = AwaitGoto 1 \<and> \<not> finished c \<longrightarrow>
        same_control
             (run E t d [OpSettles (Rejected err), OpSettles oc, OpSettles Fulfilled] c)
             (run E t d [OpSettles Fulfilled] c)"
    by (simp add: run_def step_def finished_def maxAttempts_def emit_def loop_head_def
        after_navigation_def same_control_def)
  have r: "\<And>xs ys k. run E t d (xs @ ys) k = run E t d ys (run E t d xs k)"
    by (simp add: run_def)
  have s': "operation c = AwaitGoto 1 \<and> \<not> finished c \<longrightarrow>
        same_control
             (run E t d (OpSettles (Rejected err) # OpSettles oc # OpSettles Fulfilled # rest) c)
             (run E t d (OpSettles Fulfilled # rest) c)"
    using s same_control_run [of "run E t d [OpSettles (Rejected err), OpSettles oc, OpSettles Fulfilled] c"
        "run E t d [OpSettles Fulfilled] c" E t d rest]
      r [of "[OpSettles (Rejected err), OpSettles oc, OpSettles Fulfilled]" rest c]
      r [of "[OpSettles Fulfilled]" rest c]
    by simp
  have e: "operation c2 = AwaitGoto 2 \<and> main c2 = Racing \<longrightarrow>
        step E t d (OpSettles (Rejected err)) c2
          = handler_catch d err (clearTimeout (c2\<lparr>operation := OpDone\<rparr>))"
    by (simp add: step_def finished_def maxAttempts_def op_rejected_def)
  have f: "ConsoleError err \<in> set (trace (handler_catch d err (clearTimeout (c2\<lparr>operation := OpDone\<rparr>))))"
    by (simp add: handler_catch_def cleanup_then_respond_def respond_def emit_def Let_def)
  have g: "d \<and> \<not> js_includes err no_executable \<and> \<not> js_includes err ''download new browsers''
             \<and> err \<noteq> ''Timeout'' \<longrightarrow>
             main (handler_catch d err (clearTimeout (c2\<lparr>operation := OpDone\<rparr>)))
               = CatchAwaitsClose 500 (ErrorDetailsJson ''Failed to scrape page'' err)
             \<or> main (handler_catch d err (clearTimeout (c2\<lparr>operation := OpDone\<rparr>)))
               = Responded 500 (ErrorDetailsJson ''Failed to scrape page'' err)"
    by (simp add: handler_catch_def cleanup_then_respond_def respond_def emit_def Let_def)
  have cs: "operation c = AwaitGoto 1 \<and> \<not> finished c \<longrightarrow>
        trace (step E t d (OpSettles (Rejected err)) c) = trace c @ [Sleep 250]
        \<and> operation (step E t d (OpSettles (Rejected err)) c) = AwaitSleep 1
        \<and> trace (step E t d (OpSettles oc) (step E t d (OpSettles (Rejected err)) c))
            = trace c @ [Sleep 250, Goto t]
        \<and> operation (step E t d (OpSettles oc) (step E t d (OpSettles (Rejected err)) c))
            = AwaitGoto 2
        \<and> same_control
             (run E t d (OpSettles (Rejected err) # OpSettles oc # OpSettles Fulfilled # rest) c)
             (run E t d (OpSettles Fulfilled # rest) c)"
    using c s' by blast
  have h: "operation c2 = AwaitGoto 2 \<and> main c2 = Racing \<longrightarrow>
        step E t d (OpSettles (Rejected err)) c2
          = handler_catch d err (clearTimeout (c2\<lparr>operation := OpDone\<rparr>))
        \<and> ConsoleError err \<in> set (trace (step E t d (OpSettles (Rejected err)) c2))
        \<and> (d \<and> \<not> js_includes err no_executable \<and> \<not> js_includes err ''download new browsers''
             \<and> err \<noteq> ''Timeout'' \<longrightarrow>
             main (step E t d (OpSettles (Rejected err)) c2)
               = CatchAwaitsClose 500 (ErrorDetailsJson ''Failed to scrape page'' err)
             \<or> main (step E t d (OpSettles (Rejected err)) c2)
               = Responded 500 (ErrorDetailsJson ''Failed to scrape page'' err))"
  proof (intro impI)
    assume "operation c2 = AwaitGoto 2 \<and> main c2 = Racing"
    with e have eq: "step E t d (OpSettles (Rejected err)) c2
          = handler_catch d err (clearTimeout (c2\<lparr>operation := OpDone\<rparr>))" by blast
    show "step E t d (OpSettles (Rejected err)) c2
          = handler_catch d err (clearTimeout (c2\<lparr>operation := OpDone\<rparr>))
        \<and> ConsoleError err \<in> set (trace (step E t d (OpSettles (Rejected err)) c2))
        \<and> (d \<and> \<not> js_includes err no_executable \<and> \<not> js_includes err ''download new browsers''
             \<and> err \<noteq> ''Timeout'' \<longrightarrow>
             main (step E t d (OpSettles (Rejected err)) c2)
               = CatchAwaitsClose 500 (ErrorDetailsJson ''Failed to scrape page'' err)
             \<or> main (step E t d (OpSettles (Rejected err)) c2)
               = Responded 500 (ErrorDetailsJson ''Failed to scrape page'' err))"
      unfolding eq using f g by blast
  qed
  show ?thesis by (rule conjI [OF a conjI [OF b conjI [OF cs h]]])
qed

theorem navigation_retry_witness:
  "fst (handler sample_env (get_request ''https://example.com'')
         [OpSettles Fulfilled, OpSettles Fulfilled, OpSettles Fulfilled,
          OpSettles (Rejected ''net::ERR_CONNECTION_RESET''), OpSettles Fulfilled, OpSettles Fulfilled,
          OpSettles Fulfilled, OpSettles Fulfilled])
     = Some (200, SuccessJson (Some ''A'') (Some ''B'') (Some ''C'') 200)
   \<and> fst (handler sample_env (get_request ''https://example.com'')
         [OpSettles Fulfilled, OpSettles Fulfilled, OpSettles Fulfilled,
          OpSettles Fulfilled, OpSettles Fulfilled, OpSettles Fulfilled])
     = Some (200, SuccessJson (Some ''A'') (Some ''B'') (Some ''C'') 200)
   \<and> navigations (snd (handler sample_env (get_request ''https://example.com'')
         [OpSettles Fulfilled, OpSettles Fulfilled, OpSettles Fulfilled,
          OpSettles (Rejected ''net::ERR_CONNECTION_RESET''), OpSettles Fulfilled, OpSettles Fulfilled,
          OpSettles Fulfilled, OpSettles Fulfilled])) \<le> 2
   \<and> snd (handler sample_env (get_request ''https://example.com'')
         [OpSettles Fulfilled, OpSettles Fulfilled, OpSettles Fulfilled,
          OpSettles (Rejected ''net::ERR_CONNECTION_RESET''), OpSettles Fulfilled, OpSettles Fulfilled,
          OpSettles Fulfilled, OpSettles Fulfilled])
     = [DnsLookup ''example.com'', Launch, SetTimer 20000, NewContext DEFAULT_USER_AGENT, NewPage,
        SetDefaultNavigationTimeout 18000, SetDefaultTimeout 18000, Goto ''https://example.com'',
        Sleep 250, Goto ''https://example.com'', Evaluate, BrowserClose, ClearTimer,
        Respond 200 (SuccessJson (Some ''A'') (Some ''B'') (Some ''C'') 200)]
   \<and> operation (run sample_env ''https://example.com'' False
         [OpSettles Fulfilled, OpSettles Fulfilled, OpSettles Fulfilled]
         (start [DnsLookup ''example.com''])) = AwaitGoto 1
   \<and> same_control
        (run sample_env ''https://example.com'' False
          [OpSettles (Rejected ''net::ERR_CONNECTION_RESET''), OpSettles Fulfilled, OpSettles Fulfilled,
           OpSettles Fulfilled, OpSettles Fulfilled]
          (run sample_env ''https://example.com'' False
            [OpSettles Fulfilled, OpSettles Fulfilled, OpSettles Fulfilled]
            (start [DnsLookup ''example.com''])))
        (run sample_env ''https://example.com'' False
          [OpSettles Fulfilled, OpSettles Fulfilled, OpSettles Fulfilled]
          (run sample_env ''https://example.com'' False
            [OpSettles Fulfilled, OpSettles Fulfilled, OpSettles Fulfilled]
            (start [DnsLookup ''example.com''])))
   \<and> handler sample_env (get_request ''https://example.com'')
         [OpSettles Fulfilled, OpSettles Fulfilled, OpSettles Fulfilled,
          OpSettles (Rejected ''net::ERR_CONNECTION_RESET''), OpSettles Fulfilled,
          OpSettles (Rejected ''net::ERR_CONNECTION_REFUSED''), CatchCloseSettles Fulfilled]
     = (Some (500, ErrorJson ''Failed to scrape page''),
        [DnsLookup ''example.com'', Launch, SetTimer 20000, NewContext DEFAULT_USER_AGENT, NewPage,
         SetDefaultNavigationTimeout 18000, SetDefaultTimeout 18000, Goto ''https://example.com'',
         Sleep 250, Goto ''https://example.com'', ClearTimer,
         ConsoleError ''net::ERR_CONNECTION_REFUSED'', BrowserClose,
         Respond 500 (ErrorJson ''Failed to scrape page'')])"
proof -
  define c where "c = run sample_env ''https://example.com'' False
         [OpSettles Fulfilled, OpSettles Fulfilled, OpSettles Fulfilled]
         (start [DnsLookup ''example.com''])"
  have c1: "operation c = AwaitGoto 1 \<and> \<not> finished c"
    by (simp add: c_def machine_defs)
  note t = navigation_retry [where E = sample_env and req = "get_request ''https://example.com''"
      and evs = "[OpSettles Fulfilled, OpSettles Fulfilled, OpSettles Fulfilled,
          OpSettles (Rejected ''net::ERR_CONNECTION_RESET''), OpSettles Fulfilled, OpSettles Fulfilled,
          OpSettles Fulfilled, OpSettles Fulfilled]"
      and c = c and t = "''https://example.com''" and d = False
      and err = "''net::ERR_CONNECTION_RESET''" and oc = Fulfilled
      and rest = "[OpSettles Fulfilled, OpSettles Fulfilled]"]
  from t have n: "navigations (snd (handler sample_env (get_request ''https://example.com'')
         [OpSettles Fulfilled, OpSettles Fulfilled, OpSettles Fulfilled,
          OpSettles (Rejected ''net::ERR_CONNECTION_RESET''), OpSettles Fulfilled, OpSettles Fulfilled,
          OpSettles Fulfilled, OpSettles Fulfilled])) \<le> 2"
    by blast
  from t c1 have s: "same_control
        (run sample_env ''https://example.com'' False
          [OpSettles (Rejected ''net::ERR_CONNECTION_RESET''), OpSettles Fulfilled, OpSettles Fulfilled,
           OpSettles Fulfilled, OpSettles Fulfilled] c)
        (run sample_env ''https://example.com'' False
          [OpSettles Fulfilled, OpSettles Fulfilled, OpSettles Fulfilled] c)"
    by blast
  have r1: "handler sample_env (get_request ''https://example.com'')
         [OpSettles Fulfilled, OpSettles Fulfilled, OpSettles Fulfilled,
          OpSettles (Rejected ''net::ERR_CONNECTION_RESET''), OpSettles Fulfilled, OpSettles Fulfilled,
          OpSettles Fulfilled, OpSettles Fulfilled]
     = (Some (200, SuccessJson (Some ''A'') (Some ''B'') (Some ''C'') 200),
        [DnsLookup ''example.com'', Launch, SetTimer 20000, NewContext DEFAULT_USER_AGENT, NewPage,
        SetDefaultNavigationTimeout 18000, SetDefaultTimeout 18000, Goto ''https://example.com'',
        Sleep 250, Goto ''https://example.com'', Evaluate, BrowserClose, ClearTimer,
        Respond 200 (SuccessJson (Some ''A'') (Some ''B'') (Some ''C'') 200)])"
    by (simp add: sample_handler machine_defs sample_page_evaluate)
  have r2: "fst (handler sample_env (get_request ''https://example.com'')
         [OpSettles Fulfilled, OpSettles Fulfilled, OpSettles Fulfilled,
          OpSettles Fulfilled, OpSettles Fulfilled, OpSettles Fulfilled])
     = Some (200, SuccessJson (Some ''A'') (Some ''B'') (Some ''C'') 200)"
    by (simp add: sample_handler machine_defs sample_page_evaluate)
  have r3: "handler sample_env (get_request ''https://example.com'')
         [OpSettles Fulfilled, OpSettles Fulfilled, OpSettles Fulfilled,
          OpSettles (Rejected ''net::ERR_CONNECTION_RESET''), OpSettles Fulfilled,
          OpSettles (Rejected ''net::ERR_CONNECTION_REFUSED''), CatchCloseSettles Fulfilled]
     = (Some (500, ErrorJson ''Failed to scrape page''),
        [DnsLookup ''example.com'', Launch, SetTimer 20000, NewContext DEFAULT_USER_AGENT, NewPage,
         SetDefaultNavigationTimeout 18000, SetDefaultTimeout 18000, Goto ''https://example.com'',
         Sleep 250, Goto ''https://example.com'', ClearTimer,
         ConsoleError ''net::ERR_CONNECTION_REFUSED'', BrowserClose,
         Respond 500 (ErrorJson ''Failed to scrape page'')])"
    by (simp add: sample_handler machine_defs sample_page_evaluate)
  from n s c1 r1 r2 r3 show ?thesis unfolding c_def by simp
qed

section \<open>The deadline race\<close>





























text \<open>
  A run outside the statements below: the timer fires while \<^verbatim>\<open>chromium.launch\<close> is still
  pending.  There is no browser yet, the cleanup finds nothing to close and the handler
  answers 504; the browser that the launch delivers afterwards is not closed on this path.
\<close>

lemma timeout_during_launch:
  "handler sample_env (get_request ''https://example.com'') [TimerFires]
     = (Some (504, ErrorJson ''Timeout''),
        [DnsLookup ''example.com'', Launch, SetTimer 20000, OnTimeoutCalled, OnTimeoutSettled,
         RejectTimeout, ClearTimer, ConsoleError ''Timeout'', Respond 504 (ErrorJson ''Timeout'')])"
  by (simp add: sample_handler machine_defs)




end
